theory Spec2Isabelle
  imports Complex_Main "HOL-Library.Word"
begin

section \<open>Bytes, buffers and JavaScript strings\<close>

text \<open>
  The reader works on an \<^verbatim>\<open>ArrayBuffer\<close>: a list of bytes. A JavaScript string is a
  sequence of UTF-16 code units. The JavaScript numbers that are read from bytes, and the
  lengths and offsets computed from them, are integers (\<open>int\<close>). The argument
  \<^verbatim>\<open>maxCount\<close> is any finite number, so it and the cursor \<^verbatim>\<open>_recordsRead\<close>, which moves by
  amounts computed from it, are rationals (\<open>rat\<close>); the arithmetic is exact, as that of
  the doubles is for whole numbers below \<open>2 ^ 53\<close> and for halves, quarters and the like of
  that size. A value that may be \<^verbatim>\<open>undefined\<close> or \<^verbatim>\<open>NaN\<close> is an \<open>option\<close> with \<open>None\<close> for
  it; \<^verbatim>\<open>NaN\<close> and the infinities are no values of \<^verbatim>\<open>maxCount\<close> here.
\<close>

type_synonym byte = "8 word"
type_synonym jsstring = "16 word list"

datatype error =
    InvalidFileVersion            \<comment> \<open>\<^verbatim>\<open>Invalid file version: ...\<close>\<close>
  | FieldDescriptorInvalid        \<comment> \<open>thrown by \<^verbatim>\<open>validateFieldDescriptor\<close>\<close>
  | DuplicateFieldName jsstring   \<comment> \<open>\<^verbatim>\<open>Duplicate field name: ...\<close>\<close>
  | HeaderTerminatorNotFound      \<comment> \<open>\<^verbatim>\<open>Invalid DBF file: header terminator not found.\<close>\<close>
  | InvalidRecordLength           \<comment> \<open>\<^verbatim>\<open>Invalid record length: ...\<close>\<close>
  | MemoReadPastEnd               \<comment> \<open>\<^verbatim>\<open>Error reading memo file (read past end).\<close>\<close>
  | InvalidMemoBlockSize          \<comment> \<open>\<^verbatim>\<open>Invalid memo block size ...\<close>\<close>
  | MemoVersionNotSupported       \<comment> \<open>\<^verbatim>\<open>Reading version ... memo fields is not supported.\<close>\<close>
  | TypeNotSupported              \<comment> \<open>\<^verbatim>\<open>Type '...' is not supported\<close>\<close>
  | RangeError                    \<comment> \<open>thrown by \<^verbatim>\<open>DataView\<close> and \<^verbatim>\<open>Uint8Array\<close>\<close>
  | EncodingNotSupported          \<comment> \<open>thrown by \<^verbatim>\<open>new TextDecoder(label)\<close>\<close>

text \<open>\<^verbatim>\<open>buffer[i]\<close> on a typed array: \<^verbatim>\<open>undefined\<close> outside the array.\<close>

definition byteAt :: "byte list \<Rightarrow> int \<Rightarrow> byte option" where
  "byteAt buf i = (if 0 \<le> i \<and> i < int (length buf) then Some (buf ! nat i) else None)"

text \<open>
  \<^verbatim>\<open>slice(start, end)\<close> and \<^verbatim>\<open>subarray(start, end)\<close>: a negative index counts from the
  end, and both indices are clamped to the array.
\<close>

definition relIndex :: "int \<Rightarrow> int \<Rightarrow> int" where
  "relIndex len i = (if i < 0 then max (len + i) 0 else min i len)"

definition subarray :: "byte list \<Rightarrow> int \<Rightarrow> int \<Rightarrow> byte list" where
  "subarray buf start end =
     (let len = int (length buf); s = relIndex len start; e = relIndex len end
      in take (nat (e - s)) (drop (nat s) buf))"

text \<open>
  \<^verbatim>\<open>new Uint8Array(buffer, byteOffset, length)\<close> and \<^verbatim>\<open>new DataView(buffer, byteOffset,
  length)\<close> throw a RangeError unless the window lies inside the buffer.
\<close>

definition window :: "byte list \<Rightarrow> int \<Rightarrow> int \<Rightarrow> error + byte list" where
  "window buf byteOffset len =
     (if byteOffset < 0 \<or> len < 0 \<or> int (length buf) < byteOffset + len then Inl RangeError
      else Inr (take (nat len) (drop (nat byteOffset) buf)))"

definition uintBE :: "byte list \<Rightarrow> int" where
  "uintBE bs = foldl (\<lambda>acc b. acc * 256 + uint b) 0 bs"

definition uintLE :: "byte list \<Rightarrow> int" where
  "uintLE bs = uintBE (rev bs)"

definition toSigned :: "nat \<Rightarrow> int \<Rightarrow> int" where
  "toSigned bits n = (if 2 ^ (bits - 1) \<le> n then n - 2 ^ bits else n)"

text \<open>
  The \<^verbatim>\<open>DataView\<close> getters at offset 0 of a view: a RangeError when the view is shorter
  than the number read.
\<close>

definition getUint :: "nat \<Rightarrow> byte list \<Rightarrow> bool \<Rightarrow> error + int" where
  "getUint n view littleEndian =
     (if length view < n then Inl RangeError
      else Inr ((if littleEndian then uintLE else uintBE) (take n view)))"

definition getUint16 :: "byte list \<Rightarrow> bool \<Rightarrow> error + int" where
  "getUint16 view littleEndian = getUint 2 view littleEndian"

definition getUint32 :: "byte list \<Rightarrow> bool \<Rightarrow> error + int" where
  "getUint32 view littleEndian = getUint 4 view littleEndian"

definition getInt16 :: "byte list \<Rightarrow> bool \<Rightarrow> error + int" where
  "getInt16 view littleEndian = map_sum id (toSigned 16) (getUint 2 view littleEndian)"

definition getInt32 :: "byte list \<Rightarrow> bool \<Rightarrow> error + int" where
  "getInt32 view littleEndian = map_sum id (toSigned 32) (getUint 4 view littleEndian)"

text \<open>
  \<^verbatim>\<open>new TextDecoder(label)\<close> is the platform's: a parameter \<open>td\<close> of the model, \<open>None\<close>
  where the constructor throws for a label it does not support.
\<close>

type_synonym textDecoder = "string \<Rightarrow> (byte list \<Rightarrow> jsstring) option"

definition decodeBytes :: "textDecoder \<Rightarrow> byte list \<Rightarrow> string \<Rightarrow> error + jsstring" where
  "decodeBytes td bytes enc =
     (case td enc of None \<Rightarrow> Inl EncodingNotSupported | Some decoder \<Rightarrow> Inr (decoder bytes))"

section \<open>Options, field descriptors and the file handle\<close>

datatype ReadMode = Strict | Loose

text \<open>
  \<^verbatim>\<open>Encoding\<close> is one label, or an object with a \<^verbatim>\<open>default\<close> label and labels for
  single fields: its own properties. It is a plain object, so it inherits the properties of
  \<^verbatim>\<open>Object.prototype\<close>.
\<close>

datatype Encoding = Label string | PerField string "(jsstring \<times> string) list"

record OpenOptions =
  opt_encoding :: Encoding
  opt_readMode :: ReadMode
  opt_includeDeletedRecords :: bool

text \<open>
  A field descriptor. While the header is parsed, \<^verbatim>\<open>size\<close> is what \<^verbatim>\<open>buffer[offset + 16]\<close>
  gave, which is \<^verbatim>\<open>undefined\<close> past the end of the buffer (\<open>'s\<close> is \<open>int option\<close>); in
  an open file it is a number (\<open>'s\<close> is \<open>int\<close>). The type is the one code unit of
  \<^verbatim>\<open>String.fromCharCode\<close>.
\<close>

record 's FieldDescriptor =
  name :: jsstring
  type :: "16 word"
  size_f :: 's   \<comment> \<open>\<^verbatim>\<open>size\<close>\<close>
  decimalPlaces :: "int option"

record DBFFile =
  data :: "byte list"
  recordCount :: int
  dateOfLastUpdate :: "int option \<times> int option \<times> int option"
  fieldsD :: "int FieldDescriptor list"   \<comment> \<open>\<^verbatim>\<open>fields\<close>\<close>
  p_readMode :: ReadMode                  \<comment> \<open>\<^verbatim>\<open>_readMode\<close>, and so on\<close>
  p_encoding :: Encoding
  p_includeDeletedRecords :: bool
  p_recordsRead :: rat
  p_headerLength :: int
  p_recordLength :: int
  p_memoData :: "byte list option"
  p_version :: "byte option"

definition isValidFileVersion :: "byte option \<Rightarrow> bool" where
  "isValidFileVersion fileVersion =
     (case fileVersion of None \<Rightarrow> False | Some v \<Rightarrow> v \<in> set [0x03, 0x83, 0x8b, 0x30, 0xf5])"

definition key_default :: jsstring where
  "key_default = [0x64, 0x65, 0x66, 0x61, 0x75, 0x6c, 0x74]"

text \<open>The code units of an ASCII text.\<close>

definition js :: "string \<Rightarrow> jsstring" where
  "js s = map of_char s"

text \<open>
  The properties that a plain object inherits, with the text that each value gives when it
  is used as a label: the source text of a native function, which is the engine's
  (\<^verbatim>\<open>function toString() { [native code] }\<close> in V8), and \<^verbatim>\<open>[object Object]\<close> for the
  prototype itself. No decoder has such a label.
\<close>

definition nativeFunction :: "string \<Rightarrow> string" where
  "nativeFunction f = ''function '' @ f @ ''() { [native code] }''"

definition inheritedProperties :: "(jsstring \<times> string) list" where
  "inheritedProperties =
     [(js ''constructor'', nativeFunction ''Object''),
      (js ''__defineGetter__'', nativeFunction ''__defineGetter__''),
      (js ''__defineSetter__'', nativeFunction ''__defineSetter__''),
      (js ''hasOwnProperty'', nativeFunction ''hasOwnProperty''),
      (js ''__lookupGetter__'', nativeFunction ''__lookupGetter__''),
      (js ''__lookupSetter__'', nativeFunction ''__lookupSetter__''),
      (js ''isPrototypeOf'', nativeFunction ''isPrototypeOf''),
      (js ''propertyIsEnumerable'', nativeFunction ''propertyIsEnumerable''),
      (js ''toString'', nativeFunction ''toString''),
      (js ''valueOf'', nativeFunction ''valueOf''),
      (js ''__proto__'', ''[object Object]''),
      (js ''toLocaleString'', nativeFunction ''toLocaleString'')]"

text \<open>
  \<^verbatim>\<open>encoding[field?.name ?? "default"] || encoding.default\<close>: an own property first, then an
  inherited one; an empty label gives way to the default.
\<close>

definition getEncoding :: "Encoding \<Rightarrow> jsstring option \<Rightarrow> string" where
  "getEncoding enc fieldName =
     (case enc of
        Label l \<Rightarrow> l
      | PerField dflt tab \<Rightarrow>
          (case fieldName of
             None \<Rightarrow> dflt
           | Some n \<Rightarrow>
               if n = key_default then dflt
               else (case map_of tab n of
                       Some l \<Rightarrow> if l = [] then dflt else l
                     | None \<Rightarrow>
                         (case map_of inheritedProperties n of
                            Some l \<Rightarrow> l
                          | None \<Rightarrow> dflt))))"

definition calculateRecordLengthInBytes :: "int FieldDescriptor list \<Rightarrow> int" where
  "calculateRecordLengthInBytes fs = foldl (\<lambda>len f. len + size_f f) 1 fs"

section \<open>Opening a file\<close>

text \<open>
  \<^verbatim>\<open>validateFieldDescriptor\<close> is imported from \<^verbatim>\<open>./field-descriptor\<close>: a parameter of the
  model, which answers with the error it throws, or \<open>None\<close> when it returns.
\<close>

type_synonym validator = "int option FieldDescriptor \<Rightarrow> byte option \<Rightarrow> error option"

text \<open>The object literal that the header loop builds from the 32 bytes at \<open>offset\<close>.\<close>

definition readFieldDescriptor ::
  "(byte list \<Rightarrow> jsstring) \<Rightarrow> byte list \<Rightarrow> int \<Rightarrow> int option FieldDescriptor" where
  "readFieldDescriptor decoder buffer offset =
     \<lparr> name = takeWhile (\<lambda>c. c \<noteq> 0) (decoder (subarray buffer offset (offset + 11))),
       type = (case byteAt buffer (offset + 11) of None \<Rightarrow> 0 | Some b \<Rightarrow> ucast b),
       size_f = map_option uint (byteAt buffer (offset + 16)),
       decimalPlaces = map_option uint (byteAt buffer (offset + 17)) \<rparr>"

text \<open>
  The loop over the field descriptors (\<^verbatim>\<open>while (headerLength > offset)\<close>): it returns the
  descriptors and the offset it stopped at.
\<close>

function parseFieldDescriptors ::
  "(byte list \<Rightarrow> jsstring) \<Rightarrow> validator \<Rightarrow> ReadMode \<Rightarrow> byte option \<Rightarrow> byte list \<Rightarrow> int \<Rightarrow>
   int \<Rightarrow> int option FieldDescriptor list \<Rightarrow> error + (int option FieldDescriptor list \<times> int)" where
  "parseFieldDescriptors decoder validateFieldDescriptor mode fileVersion buffer headerLength offset fields' =
     (if headerLength > offset then
        if byteAt buffer offset = Some 0x0d then Inr (fields', offset)
        else if mode \<noteq> Loose then
          (case validateFieldDescriptor (readFieldDescriptor decoder buffer offset) fileVersion of
             Some e \<Rightarrow> Inl e
           | None \<Rightarrow>
               if \<not> list_all (\<lambda>f. name f \<noteq> name (readFieldDescriptor decoder buffer offset)) fields'
               then Inl (DuplicateFieldName (name (readFieldDescriptor decoder buffer offset)))
               else parseFieldDescriptors decoder validateFieldDescriptor mode fileVersion buffer
                      headerLength (offset + 32) (fields' @ [readFieldDescriptor decoder buffer offset]))
        else parseFieldDescriptors decoder validateFieldDescriptor mode fileVersion buffer
               headerLength (offset + 32) (fields' @ [readFieldDescriptor decoder buffer offset])
      else Inr (fields', offset))"
  by pat_completeness auto
termination
  by (relation "measure (\<lambda>(decoder, v, mode, fileVersion, buffer, headerLength, offset, fields').
        nat (headerLength - offset))") auto

declare parseFieldDescriptors.simps [simp del]

text \<open>
  A descriptor whose size is \<^verbatim>\<open>undefined\<close> makes the computed record length \<^verbatim>\<open>NaN\<close>, which
  differs from every number and from itself; otherwise the sizes are numbers.
\<close>

definition definedSizes :: "int option FieldDescriptor list \<Rightarrow> int FieldDescriptor list option" where
  "definedSizes fs =
     (if list_all (\<lambda>f. size_f f \<noteq> None) fs
      then Some (map (\<lambda>f. \<lparr> name = name f, type = type f, size_f = the (size_f f),
                                decimalPlaces = decimalPlaces f \<rparr>) fs)
      else None)"

text \<open>
  \<^verbatim>\<open>openDBF\<close>, from the options that \<^verbatim>\<open>normaliseOpenOptions\<close> (imported from
  \<^verbatim>\<open>./options\<close>) returned. \<^verbatim>\<open>dateOfLastUpdate\<close> holds the three arguments of
  \<^verbatim>\<open>createDate\<close> (imported from \<^verbatim>\<open>./utils\<close>).
\<close>

definition openDBF ::
  "textDecoder \<Rightarrow> validator \<Rightarrow> byte list \<Rightarrow> byte list option \<Rightarrow> OpenOptions \<Rightarrow> error + DBFFile" where
  "openDBF td validateFieldDescriptor dat memo options =
     (let buffer = dat;
          fileVersion = byteAt buffer 0;
          lastUpdateY = byteAt buffer 1;
          lastUpdateM = byteAt buffer 2;
          lastUpdateD = byteAt buffer 3;
          date = (map_option (\<lambda>y. uint y + 1900) lastUpdateY, map_option uint lastUpdateM,
                  map_option uint lastUpdateD)
      in case getInt32 (subarray dat 4 8) True of Inl e \<Rightarrow> Inl e | Inr recordCount' \<Rightarrow>
         case getInt16 (subarray dat 8 10) True of Inl e \<Rightarrow> Inl e | Inr headerLength \<Rightarrow>
         case getInt16 (subarray dat 10 12) True of Inl e \<Rightarrow> Inl e | Inr recordLength \<Rightarrow>
         if opt_readMode options \<noteq> Loose \<and> \<not> isValidFileVersion fileVersion
         then Inl InvalidFileVersion
         else
           case td (getEncoding (opt_encoding options) None) of
             None \<Rightarrow> Inl EncodingNotSupported
           | Some decoder \<Rightarrow>
               case parseFieldDescriptors decoder validateFieldDescriptor (opt_readMode options)
                      fileVersion buffer headerLength 32 [] of
                 Inl e \<Rightarrow> Inl e
               | Inr (fields', offset) \<Rightarrow>
                   if byteAt buffer offset \<noteq> Some 0x0d then Inl HeaderTerminatorNotFound
                   else
                     case definedSizes fields' of
                       None \<Rightarrow> Inl InvalidRecordLength
                     | Some sizedFields \<Rightarrow>
                         let computedRecordLength = calculateRecordLengthInBytes sizedFields;
                             recordLength' = (if opt_readMode options = Loose
                                               then computedRecordLength else recordLength)
                         in if recordLength' \<noteq> computedRecordLength then Inl InvalidRecordLength
                            else Inr \<lparr> data = dat, recordCount = recordCount',
                                       dateOfLastUpdate = date, fieldsD = sizedFields,
                                       p_readMode = opt_readMode options,
                                       p_encoding = opt_encoding options,
                                       p_includeDeletedRecords = opt_includeDeletedRecords options,
                                       p_recordsRead = 0, p_headerLength = headerLength,
                                       p_recordLength = recordLength', p_memoData = memo,
                                       p_version = fileVersion \<rparr>)"


section \<open>Reading records\<close>

text \<open>
  A decoded value. \<open>Number t\<close> is the number that \<^verbatim>\<open>Number.parseFloat\<close> reads in the
  trimmed text \<open>t\<close> (0 when it is empty or not a number), \<open>Date8 t\<close> is
  \<^verbatim>\<open>parse8CharDate(t)\<close>, \<open>DateTime j ms\<close> is \<^verbatim>\<open>parseVfpDateTime\<close> of the Julian day and the
  milliseconds, \<open>Float64 bs\<close> is the IEEE double in the eight bytes \<open>bs\<close>, little-endian.
\<close>

datatype Value =
    Null
  | Text jsstring
  | Number jsstring
  | Bool bool
  | DateTime int int
  | Date8 jsstring
  | Float64 "byte list"
  | Int32 int

text \<open>
  A record: its properties by field name, in the order in which JavaScript lists them (the
  array indices first, in ascending order, then the other names in the order of their first
  assignment), and the \<^verbatim>\<open>DELETED\<close> symbol, which is no field name. Assigning to
  \<^verbatim>\<open>__proto__\<close> creates no property.
\<close>

record Record =
  entries :: "(jsstring \<times> Value) list"
  deleted :: bool

definition key_proto :: jsstring where
  "key_proto = [0x5f, 0x5f, 0x70, 0x72, 0x6f, 0x74, 0x6f, 0x5f, 0x5f]"

text \<open>
  An array index is the decimal text, without leading zeros, of a whole number below
  \<open>2 ^ 32 - 1\<close>.
\<close>

definition arrayIndex :: "jsstring \<Rightarrow> nat option" where
  "arrayIndex k =
     (let n = foldl (\<lambda>n c. 10 * n + (unat c - 0x30)) 0 k
      in if k \<noteq> [] \<and> list_all (\<lambda>c. 0x30 \<le> c \<and> c \<le> 0x39) k \<and> (hd k \<noteq> 0x30 \<or> length k = 1)
            \<and> n < 2 ^ 32 - 1
         then Some n else None)"

definition listedBefore :: "jsstring \<Rightarrow> jsstring \<Rightarrow> bool" where
  "listedBefore k k' =
     (case arrayIndex k of
        None \<Rightarrow> False
      | Some n \<Rightarrow> (case arrayIndex k' of None \<Rightarrow> True | Some m \<Rightarrow> n < m))"

fun create :: "(jsstring \<times> Value) list \<Rightarrow> jsstring \<Rightarrow> Value \<Rightarrow> (jsstring \<times> Value) list" where
  "create [] k v = [(k, v)]"
| "create (p # props) k v =
     (if listedBefore k (fst p) then (k, v) # p # props else p # create props k v)"

definition assign :: "(jsstring \<times> Value) list \<Rightarrow> jsstring \<Rightarrow> Value \<Rightarrow> (jsstring \<times> Value) list" where
  "assign props k v =
     (if k \<in> fst ` set props then map (\<lambda>p. if fst p = k then (k, v) else p) props
      else create props k v)"

definition setProperty :: "(jsstring \<times> Value) list \<Rightarrow> jsstring \<Rightarrow> Value \<Rightarrow> (jsstring \<times> Value) list" where
  "setProperty props k v = (if k = key_proto then props else assign props k v)"

subsection \<open>The memo block size\<close>

text \<open>
  The branch \<^verbatim>\<open>if (dbf._memoData)\<close>: \<^verbatim>\<open>getUint16(0)\<close> and \<^verbatim>\<open>getInt32(0)\<close> are called
  without the \<^verbatim>\<open>littleEndian\<close> argument, and \<^verbatim>\<open>||\<close> replaces 0 by 512.
\<close>

definition memoBlockSizeOf :: "byte option \<Rightarrow> byte list \<Rightarrow> error + int" where
  "memoBlockSizeOf ver memo =
     (if ver = Some 0x30 \<or> ver = Some 0xf5 then
        (case getUint16 (subarray memo 6 8) False of
           Inl e \<Rightarrow> Inl e
         | Inr n \<Rightarrow> Inr (if n = 0 then 512 else n))
      else
        (case (if ver = Some 0x8b then getInt32 (subarray memo 4 8) False else Inr 0) of
           Inl e \<Rightarrow> Inl e
         | Inr n \<Rightarrow> Inr (if n = 0 then 512 else n)))"

subsection \<open>Text helpers\<close>

definition decodeAt :: "textDecoder \<Rightarrow> byte list \<Rightarrow> int \<Rightarrow> int \<Rightarrow> string \<Rightarrow> error + jsstring" where
  "decodeAt td buffer start len enc = decodeBytes td (subarray buffer start (start + len)) enc"

text \<open>
  \<^verbatim>\<open>parseInt(text)\<close>: white space is skipped, then a sign, then \<^verbatim>\<open>0x\<close> selects radix 16,
  then the digits up to the first other character are read; \<open>None\<close> is \<^verbatim>\<open>NaN\<close>. The integer
  is exact here, where JavaScript rounds it to a double beyond \<open>2 ^ 53\<close>.
\<close>

definition isWhiteSpace :: "16 word \<Rightarrow> bool" where
  "isWhiteSpace c =
     (c \<in> set [0x09, 0x0A, 0x0B, 0x0C, 0x0D, 0x20, 0xA0, 0x1680, 0x2028, 0x2029, 0x202F,
                0x205F, 0x3000, 0xFEFF] \<or> (0x2000 \<le> c \<and> c \<le> 0x200A))"

definition digitValue :: "int \<Rightarrow> 16 word \<Rightarrow> int option" where
  "digitValue radix c =
     (let v = (if 0x30 \<le> c \<and> c \<le> 0x39 then uint c - 0x30
               else if 0x61 \<le> c \<and> c \<le> 0x7A then uint c - 0x61 + 10
               else if 0x41 \<le> c \<and> c \<le> 0x5A then uint c - 0x41 + 10
               else radix)
      in if v < radix then Some v else None)"

definition parseInt :: "jsstring \<Rightarrow> int option" where
  "parseInt s =
     (let s1 = dropWhile isWhiteSpace s;
          sign = (if s1 \<noteq> [] \<and> hd s1 = 0x2D then - 1 else 1 :: int);
          s2 = (if s1 \<noteq> [] \<and> (hd s1 = 0x2D \<or> hd s1 = 0x2B) then tl s1 else s1);
          hex = (2 \<le> length s2 \<and> s2 ! 0 = 0x30 \<and> (s2 ! 1 = 0x78 \<or> s2 ! 1 = 0x58));
          radix = (if hex then 16 else 10);
          s3 = (if hex then drop 2 s2 else s2);
          digits = takeWhile (\<lambda>c. digitValue radix c \<noteq> None) s3
      in if digits = [] then None
         else Some (sign * foldl (\<lambda>acc c. acc * radix + the (digitValue radix c)) 0 digits))"

text \<open>\<^verbatim>\<open>.replace(/\r\n/g, "\n")\<close> and \<^verbatim>\<open>.replace(/\n(?!$)/g, "\n" + 16 spaces)\<close>.\<close>

fun replaceCRLF :: "jsstring \<Rightarrow> jsstring" where
  "replaceCRLF (a # b # cs) =
     (if a = 0x0D \<and> b = 0x0A then 0x0A # replaceCRLF cs else a # replaceCRLF (b # cs))"
| "replaceCRLF cs = cs"

fun indentNewlines :: "jsstring \<Rightarrow> jsstring" where
  "indentNewlines [] = []"
| "indentNewlines (c # cs) =
     (if c = 0x0A \<and> cs \<noteq> [] then 0x0A # replicate 16 0x20 @ indentNewlines cs
      else c # indentNewlines cs)"

subsection \<open>Memo fields\<close>

definition ensureRange :: "byte list \<Rightarrow> int \<Rightarrow> int \<Rightarrow> error option" where
  "ensureRange memoView absoluteOffset len =
     (if absoluteOffset < 0 \<or> int (length memoView) \<le> absoluteOffset
         \<or> int (length memoView) < absoluteOffset + len
      then Some MemoReadPastEnd else None)"

definition readInt32 :: "byte list \<Rightarrow> int \<Rightarrow> bool \<Rightarrow> error + int" where
  "readInt32 memoView absoluteOffset littleEndian =
     (case ensureRange memoView absoluteOffset 4 of
        Some e \<Rightarrow> Inl e
      | None \<Rightarrow>
          (case window memoView absoluteOffset 4 of
             Inl e \<Rightarrow> Inl e
           | Inr view \<Rightarrow> getInt32 view littleEndian))"

definition readUint32 :: "byte list \<Rightarrow> int \<Rightarrow> bool \<Rightarrow> error + int" where
  "readUint32 memoView absoluteOffset littleEndian =
     (case ensureRange memoView absoluteOffset 4 of
        Some e \<Rightarrow> Inl e
      | None \<Rightarrow>
          (case window memoView absoluteOffset 4 of
             Inl e \<Rightarrow> Inl e
           | Inr view \<Rightarrow> getUint32 view littleEndian))"

definition collectBytes :: "byte list \<Rightarrow> int \<Rightarrow> int \<Rightarrow> int \<Rightarrow> int \<Rightarrow> error + byte list" where
  "collectBytes memoView memoBlockSize startBlockIndex skipFirstBytes totalLength =
     (if totalLength \<le> 0 then Inr []
      else
        let startOffset = startBlockIndex * memoBlockSize + skipFirstBytes
        in (case ensureRange memoView startOffset totalLength of
              Some e \<Rightarrow> Inl e
            | None \<Rightarrow> Inr (subarray memoView startOffset (startOffset + totalLength))))"

text \<open>\<^verbatim>\<open>memoView.indexOf(b, fromIndex)\<close>: the first index at or after \<open>fromIndex\<close>, or -1.\<close>

definition indexOfFrom :: "byte list \<Rightarrow> byte \<Rightarrow> int \<Rightarrow> int" where
  "indexOfFrom buf b fromIndex =
     (let len = int (length buf);
          k = (if 0 \<le> fromIndex then fromIndex else max (len + fromIndex) 0);
          rest = drop (nat k) buf
      in if b \<in> set rest then k + int (length (takeWhile (\<lambda>x. x \<noteq> b) rest)) else - 1)"

text \<open>
  The memo part of \<^verbatim>\<open>case "M"\<close>, from \<^verbatim>\<open>if (!memoView)\<close> on, for a block index that is a
  number other than 0. \<open>Inr None\<close> is the \<^verbatim>\<open>continue\<close> that leaves the field out of the
  record; \<open>Inr (Some v)\<close> is the value that \<^verbatim>\<open>break\<close> carries to the assignment.
\<close>

definition readMemo ::
  "textDecoder \<Rightarrow> ReadMode \<Rightarrow> byte option \<Rightarrow> byte list option \<Rightarrow> int \<Rightarrow> string \<Rightarrow> int \<Rightarrow>
   error + Value option" where
  "readMemo td mode ver memoView memoBlockSize enc blockIndex =
     (case memoView of
        None \<Rightarrow> if mode = Strict then Inl MemoReadPastEnd else Inr None
      | Some mv \<Rightarrow>
          if memoBlockSize \<le> 0 then Inl InvalidMemoBlockSize
          else
            let blockOffset = blockIndex * memoBlockSize
            in (case ensureRange mv blockOffset 0 of
                  Some e \<Rightarrow> Inl e
                | None \<Rightarrow>
                    if ver = Some 0x83 then
                      (let terminator = indexOfFrom mv 0x1a blockOffset;
                           end = (if terminator = - 1 then int (length mv) else terminator);
                           memoBytes = subarray mv blockOffset end
                       in (case decodeBytes td memoBytes enc of
                             Inl e \<Rightarrow> Inl e
                           | Inr decoded \<Rightarrow>
                               Inr (Some (Text (indentNewlines (replaceCRLF decoded))))))
                    else if ver = Some 0x8b then
                      (case readUint32 mv (blockOffset + 4) True of
                         Inl e \<Rightarrow> Inl e
                       | Inr n \<Rightarrow>
                           (let memoLength = (if n - 8 < 0 then 0 else n - 8)
                            in (case collectBytes mv memoBlockSize blockIndex 8 memoLength of
                                  Inl e \<Rightarrow> Inl e
                                | Inr memoBytes \<Rightarrow>
                                    (case decodeBytes td memoBytes enc of
                                       Inl e \<Rightarrow> Inl e
                                     | Inr decoded \<Rightarrow> Inr (Some (Text decoded))))))
                    else if ver = Some 0x30 \<or> ver = Some 0xf5 then
                      (case readInt32 mv blockOffset False of
                         Inl e \<Rightarrow> Inl e
                       | Inr memoType \<Rightarrow>
                           if memoType \<noteq> 1 then Inr (Some (Text []))
                           else
                             (case readInt32 mv (blockOffset + 4) False of
                                Inl e \<Rightarrow> Inl e
                              | Inr n \<Rightarrow>
                                  (let memoLength = (if n < 0 then 0 else n)
                                   in (case collectBytes mv memoBlockSize blockIndex 8 memoLength of
                                         Inl e \<Rightarrow> Inl e
                                       | Inr memoBytes \<Rightarrow>
                                           (case decodeBytes td memoBytes enc of
                                              Inl e \<Rightarrow> Inl e
                                            | Inr decoded \<Rightarrow> Inr (Some (Text decoded)))))))
                    else Inl MemoVersionNotSupported))"


subsection \<open>Fields and records\<close>

text \<open>The loop of \<^verbatim>\<open>case "C"\<close> that drops the trailing spaces.\<close>

function trimTrailing :: "byte list \<Rightarrow> int \<Rightarrow> int \<Rightarrow> int" where
  "trimTrailing buffer offset effectiveLen =
     (if effectiveLen > 0 \<and> byteAt buffer (offset + effectiveLen - 1) = Some 0x20
      then trimTrailing buffer offset (effectiveLen - 1)
      else effectiveLen)"
  by pat_completeness auto
termination
  by (relation "measure (\<lambda>(buffer, offset, effectiveLen). nat effectiveLen)") auto

declare trimTrailing.simps [simp del]

text \<open>
  The block index of \<^verbatim>\<open>case "M"\<close>: a little-endian int32 for version 0x30, the
  \<^verbatim>\<open>parseInt\<close> of the field's text otherwise (\<open>None\<close> is \<^verbatim>\<open>NaN\<close>).
\<close>

definition memoBlockIndex ::
  "textDecoder \<Rightarrow> DBFFile \<Rightarrow> int \<Rightarrow> byte list \<Rightarrow> int \<Rightarrow> int \<Rightarrow> string \<Rightarrow> error + int option" where
  "memoBlockIndex td dbf byteOffset buffer offset len enc =
     (if p_version dbf = Some 0x30 then
        (case window (data dbf) (byteOffset + offset) len of
           Inl e \<Rightarrow> Inl e
         | Inr view \<Rightarrow> map_sum id Some (getInt32 view True))
      else map_sum id parseInt (decodeAt td buffer offset len enc))"

text \<open>
  One turn of the loop over the fields: the \<^verbatim>\<open>switch (field.type)\<close>. \<open>buffer\<close> is the chunk,
  a view of \<^verbatim>\<open>dbf.data\<close> at \<open>byteOffset\<close>; the \<^verbatim>\<open>DataView\<close>s are made on \<^verbatim>\<open>dbf.data\<close> itself.
  The result is the value to assign (\<open>None\<close> after \<^verbatim>\<open>continue\<close>) and the new offset.
\<close>

definition decodeField ::
  "textDecoder \<Rightarrow> DBFFile \<Rightarrow> int \<Rightarrow> byte list option \<Rightarrow> int \<Rightarrow> byte list \<Rightarrow> int \<Rightarrow>
   int FieldDescriptor \<Rightarrow> error + (Value option \<times> int)" where
  "decodeField td dbf memoBlockSize memoView byteOffset buffer offset field =
     (let len = size_f field;
          enc = getEncoding (p_encoding dbf) (Some (name field));
          t = type field
      in
      if t = 0x43 then \<comment> \<open>C\<close>
        (let effectiveLen = trimTrailing buffer offset len
         in if effectiveLen > 0 then
              (case decodeAt td buffer offset effectiveLen enc of
                 Inl e \<Rightarrow> Inl e
               | Inr text \<Rightarrow> Inr (Some (Text text), offset + size_f field))
            else Inr (Some (Text []), offset + size_f field))
      else if t = 0x4E \<or> t = 0x46 then \<comment> \<open>N, F\<close>
        (case decodeAt td buffer offset (size_f field) enc of
           Inl e \<Rightarrow> Inl e
         | Inr text \<Rightarrow> Inr (Some (Number text), offset + size_f field))
      else if t = 0x4C then \<comment> \<open>L\<close>
        (let c = byteAt buffer offset
         in Inr (Some (if c \<in> Some ` set [0x54, 0x74, 0x59, 0x79] then Bool True
                       else if c \<in> Some ` set [0x46, 0x66, 0x4E, 0x6E] then Bool False
                       else Null), offset + 1))
      else if t = 0x54 then \<comment> \<open>T\<close>
        (if byteAt buffer offset = Some 0x20 then Inr (Some Null, offset + 8)
         else
           (case window (data dbf) (byteOffset + offset) 4 of
              Inl e \<Rightarrow> Inl e
            | Inr view1 \<Rightarrow>
                (case getInt32 view1 True of
                   Inl e \<Rightarrow> Inl e
                 | Inr julianDay \<Rightarrow>
                     (case window (data dbf) (byteOffset + offset + 4) 4 of
                        Inl e \<Rightarrow> Inl e
                      | Inr view2 \<Rightarrow>
                          (case getInt32 view2 True of
                             Inl e \<Rightarrow> Inl e
                           | Inr ms \<Rightarrow> Inr (Some (DateTime julianDay (ms + 1)), offset + 8))))))
      else if t = 0x44 then \<comment> \<open>D\<close>
        (if byteAt buffer offset = Some 0x20 then Inr (Some Null, offset + 8)
         else
           (case decodeAt td buffer offset 8 enc of
              Inl e \<Rightarrow> Inl e
            | Inr text \<Rightarrow> Inr (Some (Date8 text), offset + 8)))
      else if t = 0x42 then \<comment> \<open>B\<close>
        (case window (data dbf) (byteOffset + offset) (size_f field) of
           Inl e \<Rightarrow> Inl e
         | Inr view \<Rightarrow>
             if length view < 8 then Inl RangeError
             else Inr (Some (Float64 (take 8 view)), offset + size_f field))
      else if t = 0x49 then \<comment> \<open>I\<close>
        (case window (data dbf) (byteOffset + offset) (size_f field) of
           Inl e \<Rightarrow> Inl e
         | Inr view \<Rightarrow>
             (case getInt32 view True of
                Inl e \<Rightarrow> Inl e
              | Inr n \<Rightarrow> Inr (Some (Int32 n), offset + size_f field)))
      else if t = 0x4D then \<comment> \<open>M\<close>
        (case memoBlockIndex td dbf byteOffset buffer offset len enc of
           Inl e \<Rightarrow> Inl e
         | Inr blockIndex \<Rightarrow>
             if blockIndex = None \<or> blockIndex = Some 0 then Inr (Some Null, offset + len)
             else
               (case readMemo td (p_readMode dbf) (p_version dbf) memoView memoBlockSize enc
                       (the blockIndex) of
                  Inl e \<Rightarrow> Inl e
                | Inr value \<Rightarrow> Inr (value, offset + len)))
      else \<comment> \<open>default\<close>
        (if p_readMode dbf = Strict then Inl TypeNotSupported
         else Inr (None, offset + size_f field)))"

text \<open>The loop over the fields of one record.\<close>

fun parseFields ::
  "textDecoder \<Rightarrow> DBFFile \<Rightarrow> int \<Rightarrow> byte list option \<Rightarrow> int \<Rightarrow> byte list \<Rightarrow> int \<Rightarrow>
   int FieldDescriptor list \<Rightarrow> (jsstring \<times> Value) list \<Rightarrow>
   error + ((jsstring \<times> Value) list \<times> int)" where
  "parseFields td dbf memoBlockSize memoView byteOffset buffer offset [] props = Inr (props, offset)"
| "parseFields td dbf memoBlockSize memoView byteOffset buffer offset (field # rest) props =
     (case decodeField td dbf memoBlockSize memoView byteOffset buffer offset field of
        Inl e \<Rightarrow> Inl e
      | Inr (value, offset') \<Rightarrow>
          parseFields td dbf memoBlockSize memoView byteOffset buffer offset' rest
            (case value of None \<Rightarrow> props | Some v \<Rightarrow> setProperty props (name field) v))"

text \<open>
  One turn of the loop over the records of a chunk: \<open>None\<close> after the \<^verbatim>\<open>continue\<close> that
  skips a deleted record, the record that is pushed otherwise; and the new offset.
\<close>

definition parseRecord ::
  "textDecoder \<Rightarrow> DBFFile \<Rightarrow> int \<Rightarrow> byte list option \<Rightarrow> int \<Rightarrow> byte list \<Rightarrow> int \<Rightarrow>
   error + (Record option \<times> int)" where
  "parseRecord td dbf memoBlockSize memoView byteOffset buffer offset =
     (let isDeleted = (byteAt buffer offset = Some 0x2a)
      in if isDeleted \<and> \<not> p_includeDeletedRecords dbf
         then Inr (None, offset + 1 + (p_recordLength dbf - 1))
         else
           (case parseFields td dbf memoBlockSize memoView byteOffset buffer (offset + 1)
                   (fieldsD dbf) [] of
              Inl e \<Rightarrow> Inl e
            | Inr (props, offset') \<Rightarrow>
                Inr (Some \<lparr> entries = props, deleted = isDeleted \<rparr>, offset')))"

text \<open>The loop over the records of a chunk, one result for each raw record.\<close>

fun parseRecords ::
  "textDecoder \<Rightarrow> DBFFile \<Rightarrow> int \<Rightarrow> byte list option \<Rightarrow> int \<Rightarrow> byte list \<Rightarrow> nat \<Rightarrow> int \<Rightarrow>
   error + Record option list" where
  "parseRecords td dbf memoBlockSize memoView byteOffset buffer 0 offset = Inr []"
| "parseRecords td dbf memoBlockSize memoView byteOffset buffer (Suc n) offset =
     (case parseRecord td dbf memoBlockSize memoView byteOffset buffer offset of
        Inl e \<Rightarrow> Inl e
      | Inr (r, offset') \<Rightarrow>
          (case parseRecords td dbf memoBlockSize memoView byteOffset buffer n offset' of
             Inl e \<Rightarrow> Inl e
           | Inr rs \<Rightarrow> Inr (r # rs)))"

text \<open>The records that a chunk pushes.\<close>

fun pushed :: "Record option list \<Rightarrow> Record list" where
  "pushed [] = []"
| "pushed (None # rs) = pushed rs"
| "pushed (Some r # rs) = r # pushed rs"

text \<open>
  \<^verbatim>\<open>ToIndex\<close>, which the constructor of a typed array applies to its offset and length:
  the fraction is cut off. (The RangeError for a negative result is in \<open>window\<close>.)
\<close>

definition toIndex :: "rat \<Rightarrow> int" where
  "toIndex q = (if 0 \<le> q then \<lfloor>q\<rfloor> else \<lceil>q\<rceil>)"

text \<open>
  The body of the \<^verbatim>\<open>while\<close> loop after \<^verbatim>\<open>recordCountToRead\<close> is known: the chunk is made,
  then the cursor moves, then the records are parsed, one for each whole \<open>i\<close> from 0 that is
  less than \<^verbatim>\<open>recordCountToRead\<close>. An error leaves the handle as it was when it was thrown.
\<close>

definition readChunk ::
  "textDecoder \<Rightarrow> int \<Rightarrow> byte list option \<Rightarrow> DBFFile \<Rightarrow> rat \<Rightarrow>
   (error + Record option list) \<times> DBFFile" where
  "readChunk td memoBlockSize memoView dbf recordCountToRead =
     (let byteOffset = toIndex (of_int (p_headerLength dbf)
                                 + p_recordsRead dbf * of_int (p_recordLength dbf))
      in (case window (data dbf) byteOffset
                 (toIndex (of_int (p_recordLength dbf) * recordCountToRead)) of
            Inl e \<Rightarrow> (Inl e, dbf)
          | Inr buffer \<Rightarrow>
              (let dbf' = dbf\<lparr>p_recordsRead := p_recordsRead dbf + recordCountToRead\<rparr>
               in (parseRecords td dbf' memoBlockSize memoView byteOffset buffer
                     (nat \<lceil>recordCountToRead\<rceil>) 0, dbf'))))"

definition recordCountToRead :: "DBFFile \<Rightarrow> rat \<Rightarrow> rat \<Rightarrow> rat" where
  "recordCountToRead dbf maxCount len =
     min (min (of_int (recordCount dbf) - p_recordsRead dbf) (maxCount - len)) (min maxCount 1000)"

lemma readChunk_cursor:
  "readChunk td memoBlockSize memoView dbf n = (Inr outs, dbf') \<Longrightarrow>
   dbf' = dbf\<lparr>p_recordsRead := p_recordsRead dbf + n\<rparr>"
  by (auto simp: readChunk_def Let_def split: sum.splits)

text \<open>
  The loop ends: while it runs, the cursor moves either to \<^verbatim>\<open>recordCount\<close> or by at least
  the least positive difference between \<open>maxCount\<close> and a whole number.
\<close>

definition leastStep :: "rat \<Rightarrow> rat" where
  "leastStep maxCount =
     (if maxCount = of_int \<lfloor>maxCount\<rfloor> then 1 else maxCount - of_int \<lfloor>maxCount\<rfloor>)"

lemma leastStep_whole: "maxCount = of_int \<lfloor>maxCount\<rfloor> \<Longrightarrow> leastStep maxCount = 1"
  unfolding leastStep_def by (rule if_P)

lemma leastStep_fraction:
  "maxCount \<noteq> of_int \<lfloor>maxCount\<rfloor> \<Longrightarrow> leastStep maxCount = maxCount - of_int \<lfloor>maxCount\<rfloor>"
  unfolding leastStep_def by (rule if_not_P)

lemma leastStep_bounds:
  "0 < leastStep maxCount" "leastStep maxCount \<le> 1"
proof -
  have a: "of_int \<lfloor>maxCount\<rfloor> \<le> maxCount" and b: "maxCount < of_int \<lfloor>maxCount\<rfloor> + 1"
    by linarith+
  show "0 < leastStep maxCount"
  proof (cases "maxCount = of_int \<lfloor>maxCount\<rfloor>")
    case True
    then show ?thesis by (simp only: leastStep_whole zero_less_one)
  next
    case False
    from a False[symmetric] have "of_int \<lfloor>maxCount\<rfloor> < maxCount" by (rule le_neq_trans)
    then show ?thesis by (simp only: leastStep_fraction[OF False])
  qed
  show "leastStep maxCount \<le> 1"
  proof (cases "maxCount = of_int \<lfloor>maxCount\<rfloor>")
    case True
    then show ?thesis by (simp only: leastStep_whole order_refl)
  next
    case False
    from b have "maxCount - of_int \<lfloor>maxCount\<rfloor> \<le> 1" by linarith
    then show ?thesis by (simp only: leastStep_fraction[OF False])
  qed
qed

lemma leastStep_le:
  assumes "of_nat len < maxCount"
  shows "leastStep maxCount \<le> maxCount - of_nat len"
proof (cases "maxCount = of_int \<lfloor>maxCount\<rfloor>")
  case True
  with assms have "(of_int (int len) :: rat) < of_int \<lfloor>maxCount\<rfloor>" by simp
  then have "int len < \<lfloor>maxCount\<rfloor>" by (simp only: of_int_less_iff)
  then have "int len + 1 \<le> \<lfloor>maxCount\<rfloor>" by simp
  then have "(of_int (int len + 1) :: rat) \<le> of_int \<lfloor>maxCount\<rfloor>" by (simp only: of_int_le_iff)
  then have "1 \<le> of_int \<lfloor>maxCount\<rfloor> - (of_nat len :: rat)" by simp
  with True have "1 \<le> maxCount - of_nat len" by simp
  then show ?thesis by (simp only: leastStep_whole[OF True])
next
  case False
  from assms have "int len \<le> \<lfloor>maxCount\<rfloor>" by (simp add: le_floor_iff)
  then have "(of_int (int len) :: rat) \<le> of_int \<lfloor>maxCount\<rfloor>" by (simp only: of_int_le_iff)
  then show ?thesis by (simp only: leastStep_fraction[OF False])
qed

lemma recordCountToRead_step:
  assumes "p_recordsRead dbf < of_int (recordCount dbf)" "of_nat len < maxCount"
  shows "recordCountToRead dbf maxCount (of_nat len) = of_int (recordCount dbf) - p_recordsRead dbf
         \<or> leastStep maxCount \<le> recordCountToRead dbf maxCount (of_nat len)"
proof -
  have a: "leastStep maxCount \<le> maxCount - of_nat len"
    using assms(2) by (rule leastStep_le)
  have "(0 :: rat) \<le> of_nat len" by simp
  with a have b: "leastStep maxCount \<le> maxCount" by linarith
  have c: "leastStep maxCount \<le> 1000"
    using leastStep_bounds(2)[of maxCount] by linarith
  from a b c show ?thesis
    by (auto simp: recordCountToRead_def min_def)
qed

lemma readLoop_measure:
  assumes run: "p_recordsRead dbf < of_int (recordCount dbf)" "of_nat len < maxCount"
      and n: "n = recordCountToRead dbf maxCount (of_nat len)"
  shows "nat \<lceil>(of_int (recordCount dbf) - (p_recordsRead dbf + n)) / leastStep maxCount\<rceil>
         < nat \<lceil>(of_int (recordCount dbf) - p_recordsRead dbf) / leastStep maxCount\<rceil>"
proof -
  let ?g = "leastStep maxCount"
  let ?x = "(of_int (recordCount dbf) - p_recordsRead dbf) / ?g"
  have g: "0 < ?g" by (rule leastStep_bounds)
  with run(1) have "0 < ?x" by simp
  then have x1: "1 \<le> \<lceil>?x\<rceil>" by (simp add: less_ceiling_iff)
  from recordCountToRead_step[OF run] n
  consider "n = of_int (recordCount dbf) - p_recordsRead dbf" | "?g \<le> n" by auto
  then show ?thesis
  proof cases
    case 1
    then have "of_int (recordCount dbf) - (p_recordsRead dbf + n) = 0" by simp
    then have eq: "(of_int (recordCount dbf) - (p_recordsRead dbf + n)) / ?g = 0"
      by (simp only: div_0)
    show ?thesis unfolding eq using x1 by simp
  next
    case 2
    have "(of_int (recordCount dbf) - (p_recordsRead dbf + n)) / ?g = ?x - n / ?g"
      by (simp add: diff_divide_distrib add_divide_distrib)
    moreover from 2 g have "1 \<le> n / ?g" by simp
    ultimately have "(of_int (recordCount dbf) - (p_recordsRead dbf + n)) / ?g \<le> ?x - 1"
      by linarith
    then have "\<lceil>(of_int (recordCount dbf) - (p_recordsRead dbf + n)) / ?g\<rceil> \<le> \<lceil>?x - 1\<rceil>"
      by (rule ceiling_mono)
    also have "\<dots> = \<lceil>?x\<rceil> - 1" by simp
    finally show ?thesis using x1 by linarith
  qed
qed

text \<open>
  The \<^verbatim>\<open>while\<close> loop of \<^verbatim>\<open>readRecordsFromDBF\<close>. The result is what the call returns or
  throws, and the handle as the call leaves it.
\<close>

function readLoop ::
  "textDecoder \<Rightarrow> rat \<Rightarrow> int \<Rightarrow> byte list option \<Rightarrow> DBFFile \<Rightarrow> Record list \<Rightarrow>
   (error + Record list) \<times> DBFFile" where
  "readLoop td maxCount memoBlockSize memoView dbf records =
     (if p_recordsRead dbf < of_int (recordCount dbf) \<and> of_nat (length records) < maxCount then
        if recordCountToRead dbf maxCount (of_nat (length records)) = 0 then (Inr records, dbf)
        else
          (case readChunk td memoBlockSize memoView dbf
                  (recordCountToRead dbf maxCount (of_nat (length records))) of
             (Inl e, dbf') \<Rightarrow> (Inl e, dbf')
           | (Inr outs, dbf') \<Rightarrow>
               readLoop td maxCount memoBlockSize memoView dbf' (records @ pushed outs))
      else (Inr records, dbf))"
  by pat_completeness auto
termination
proof (relation "measure (\<lambda>(td, maxCount, memoBlockSize, memoView, dbf, records).
                   nat \<lceil>(of_int (recordCount dbf) - p_recordsRead dbf) / leastStep maxCount\<rceil>)",
       goal_cases)
  case 1
  show ?case by simp
next
  case (2 td maxCount memoBlockSize memoView dbf records x1 dbf' outs)
  from 2(3,4) have "dbf' = dbf\<lparr>p_recordsRead := p_recordsRead dbf
                        + recordCountToRead dbf maxCount (of_nat (length records))\<rparr>"
    using readChunk_cursor by metis
  then show ?case
    using readLoop_measure[of dbf "length records" maxCount, OF _ _ refl] 2(1) by simp
qed

declare readLoop.simps [simp del]

text \<open>\<^verbatim>\<open>readRecordsFromDBF(dbf, maxCount)\<close>, which \<^verbatim>\<open>DBFFile.readRecords\<close> calls.\<close>

definition readRecordsFromDBF :: "textDecoder \<Rightarrow> DBFFile \<Rightarrow> rat \<Rightarrow> (error + Record list) \<times> DBFFile" where
  "readRecordsFromDBF td dbf maxCount =
     (case p_memoData dbf of
        None \<Rightarrow> readLoop td maxCount 0 None dbf []
      | Some memo \<Rightarrow>
          (case memoBlockSizeOf (p_version dbf) memo of
             Inl e \<Rightarrow> (Inl e, dbf)
           | Inr memoBlockSize \<Rightarrow> readLoop td maxCount memoBlockSize (Some memo) dbf []))"

text \<open>
  The same loop and the same call, keeping one result for each turn of the loop over the
  records instead of the pushed records alone: \<open>None\<close> for a skipped record.
\<close>

function scanLoop ::
  "textDecoder \<Rightarrow> rat \<Rightarrow> int \<Rightarrow> byte list option \<Rightarrow> DBFFile \<Rightarrow> Record option list \<Rightarrow>
   (error + Record option list) \<times> DBFFile" where
  "scanLoop td maxCount memoBlockSize memoView dbf scanned =
     (if p_recordsRead dbf < of_int (recordCount dbf)
         \<and> of_nat (length (pushed scanned)) < maxCount then
        if recordCountToRead dbf maxCount (of_nat (length (pushed scanned))) = 0
        then (Inr scanned, dbf)
        else
          (case readChunk td memoBlockSize memoView dbf
                  (recordCountToRead dbf maxCount (of_nat (length (pushed scanned)))) of
             (Inl e, dbf') \<Rightarrow> (Inl e, dbf')
           | (Inr outs, dbf') \<Rightarrow>
               scanLoop td maxCount memoBlockSize memoView dbf' (scanned @ outs))
      else (Inr scanned, dbf))"
  by pat_completeness auto
termination
proof (relation "measure (\<lambda>(td, maxCount, memoBlockSize, memoView, dbf, scanned).
                   nat \<lceil>(of_int (recordCount dbf) - p_recordsRead dbf) / leastStep maxCount\<rceil>)",
       goal_cases)
  case 1
  show ?case by simp
next
  case (2 td maxCount memoBlockSize memoView dbf scanned x1 dbf' outs)
  from 2(3,4) have "dbf' = dbf\<lparr>p_recordsRead := p_recordsRead dbf
                        + recordCountToRead dbf maxCount (of_nat (length (pushed scanned)))\<rparr>"
    using readChunk_cursor by metis
  then show ?case
    using readLoop_measure[of dbf "length (pushed scanned)" maxCount, OF _ _ refl] 2(1) by simp
qed

declare scanLoop.simps [simp del]

definition scanRecordsFromDBF ::
  "textDecoder \<Rightarrow> DBFFile \<Rightarrow> rat \<Rightarrow> (error + Record option list) \<times> DBFFile" where
  "scanRecordsFromDBF td dbf maxCount =
     (case p_memoData dbf of
        None \<Rightarrow> scanLoop td maxCount 0 None dbf []
      | Some memo \<Rightarrow>
          (case memoBlockSizeOf (p_version dbf) memo of
             Inl e \<Rightarrow> (Inl e, dbf)
           | Inr memoBlockSize \<Rightarrow> scanLoop td maxCount memoBlockSize (Some memo) dbf []))"

text \<open>What a call returns, from the results of the scan.\<close>

definition returned ::
  "(error + Record option list) \<times> DBFFile \<Rightarrow> (error + Record list) \<times> DBFFile" where
  "returned res =
     (case res of (Inl e, d) \<Rightarrow> (Inl e, d) | (Inr outs, d) \<Rightarrow> (Inr (pushed outs), d))"

text \<open>
  A session on one handle: the calls of \<^verbatim>\<open>readRecords\<close> that returned, one after the other,
  each with a whole number for \<^verbatim>\<open>maxCount\<close> (the async iterator calls it with 100 until the
  cursor is at \<^verbatim>\<open>recordCount\<close>). \<open>session td dbf scanned dbf'\<close>: from the handle \<open>dbf\<close> the
  calls scanned the raw records \<open>scanned\<close> and left the handle \<open>dbf'\<close>.
\<close>

inductive session :: "textDecoder \<Rightarrow> DBFFile \<Rightarrow> Record option list \<Rightarrow> DBFFile \<Rightarrow> bool"
  for td :: textDecoder and dbf :: DBFFile where
  opened: "session td dbf [] dbf"
| call: "session td dbf scanned dbf' \<Longrightarrow>
         scanRecordsFromDBF td dbf' (of_int maxCount) = (Inr outs, dbf'') \<Longrightarrow>
         session td dbf (scanned @ outs) dbf''"

section \<open>The records of a file\<close>

text \<open>
  The first byte of record \<open>k\<close> of the file, counted from 0: the records follow the header,
  \<^verbatim>\<open>recordLength\<close> bytes each. And the number of records whose first byte is 0x2A.
\<close>

definition recordFlag :: "DBFFile \<Rightarrow> int \<Rightarrow> byte option" where
  "recordFlag dbf k = byteAt (data dbf) (p_headerLength dbf + k * p_recordLength dbf)"

definition deletedCount :: "DBFFile \<Rightarrow> nat" where
  "deletedCount dbf =
     length (filter (\<lambda>k. recordFlag dbf (int k) = Some 0x2a) [0..<nat (recordCount dbf)])"

text \<open>
  The loop over the fields moves the offset by 1 for a field of type L and by 8 for a
  field of type T or D, and by \<^verbatim>\<open>field.size\<close> for the other types. The fields are of their
  own size when these agree (and no size is negative); then a record takes as many bytes
  as its fields say.
\<close>

definition ownSize :: "int FieldDescriptor list \<Rightarrow> bool" where
  "ownSize fs =
     list_all (\<lambda>f. 0 \<le> size_f f \<and> (type f = 0x4C \<longrightarrow> size_f f = 1)
                  \<and> (type f = 0x54 \<or> type f = 0x44 \<longrightarrow> size_f f = 8)) fs"

text \<open>
  What the loop makes of a raw record with the first byte \<open>flag\<close>: skipped when it is
  deleted and deleted records are not included, pushed otherwise, with the deleted mark
  when it is deleted.
\<close>

definition treated :: "bool \<Rightarrow> byte option \<Rightarrow> Record option \<Rightarrow> bool" where
  "treated inclDeleted flag out =
     (case out of
        None \<Rightarrow> flag = Some 0x2a \<and> \<not> inclDeleted
      | Some r \<Rightarrow> (inclDeleted \<or> flag \<noteq> Some 0x2a) \<and> deleted r = (flag = Some 0x2a))"

section \<open>The descriptor table of a header\<close>

text \<open>
  In loose mode the header loop validates nothing and cannot throw; it gives the
  descriptors of the table as they are written, and the offset of the byte after the table.
\<close>

definition tableEnd :: "byte list \<Rightarrow> int \<Rightarrow> int" where
  "tableEnd buffer headerLength =
     snd (projr (parseFieldDescriptors (\<lambda>bytes. []) (\<lambda>field ver. None) Loose None buffer
                   headerLength 32 []))"

definition tableFields ::
  "(byte list \<Rightarrow> jsstring) \<Rightarrow> byte list \<Rightarrow> int \<Rightarrow> int option FieldDescriptor list" where
  "tableFields decoder buffer headerLength =
     fst (projr (parseFieldDescriptors decoder (\<lambda>field ver. None) Loose None buffer
                   headerLength 32 []))"

section \<open>A sample file\<close>

text \<open>
  A decoder that knows one label and maps each byte to the code unit of the same number,
  as latin1 does for ASCII; and a validator that accepts every descriptor.
\<close>

definition sampleDecoder :: textDecoder where
  "sampleDecoder label = (if label = ''latin1'' then Some (map ucast) else None)"

definition acceptAll :: validator where
  "acceptAll field ver = None"

text \<open>A validator that accepts the descriptors with a name and rejects the others.\<close>

definition rejectUnnamed :: validator where
  "rejectUnnamed field ver = (if name field = [] then Some FieldDescriptorInvalid else None)"

definition strictOptions :: OpenOptions where
  "strictOptions =
     \<lparr> opt_encoding = Label ''latin1'', opt_readMode = Strict, opt_includeDeletedRecords = False \<rparr>"

definition looseOptions :: OpenOptions where
  "looseOptions =
     \<lparr> opt_encoding = Label ''latin1'', opt_readMode = Loose, opt_includeDeletedRecords = False \<rparr>"

text \<open>
  A dBase III file with a memo file (version 0x83), last updated 2026-11-03: the fields
  NAME, C(10), and NOTE, M(10); three records of 21 bytes, the second one deleted.
\<close>

definition sampleHeader :: "byte list" where
  "sampleHeader =
     [0x83, 0x7e, 0x0b, 0x03, 3, 0, 0, 0, 0x61, 0, 0x15, 0,
      0, 0, 0, 0, 0, 0, 0, 0, 0, 0, 0, 0, 0, 0, 0, 0, 0, 0, 0, 0,
      0x4E, 0x41, 0x4D, 0x45, 0, 0, 0, 0, 0, 0, 0, 0x43, 0, 0, 0, 0,
      10, 0, 0, 0, 0, 0, 0, 0, 0, 0, 0, 0, 0, 0, 0, 0,
      0x4E, 0x4F, 0x54, 0x45, 0, 0, 0, 0, 0, 0, 0, 0x4D, 0, 0, 0, 0,
      10, 0, 0, 0, 0, 0, 0, 0, 0, 0, 0, 0, 0, 0, 0, 0,
      0x0D]"

definition sampleRecords :: "byte list" where
  "sampleRecords =
     [0x20, 0x41, 0x4C, 0x50, 0x48, 0x41, 0x20, 0x20, 0x20, 0x20, 0x20,
            0x20, 0x20, 0x20, 0x20, 0x20, 0x20, 0x20, 0x20, 0x20, 0x31,
      0x2A, 0x42, 0x45, 0x54, 0x41, 0x20, 0x20, 0x20, 0x20, 0x20, 0x20,
            0x20, 0x20, 0x20, 0x20, 0x20, 0x20, 0x20, 0x20, 0x20, 0x32,
      0x20, 0x47, 0x41, 0x4D, 0x4D, 0x41, 0x20, 0x20, 0x20, 0x20, 0x20,
            0x20, 0x20, 0x20, 0x20, 0x20, 0x20, 0x20, 0x20, 0x20, 0x20]"

definition sampleFile :: "byte list" where
  "sampleFile = sampleHeader @ sampleRecords"

text \<open>Its memo file: \<open>one\<close> in block 1, \<open>t\<close>, a line feed and \<open>o\<close> in block 2.\<close>

definition sampleMemo :: "byte list" where
  "sampleMemo =
     replicate 512 0 @ [0x6F, 0x6E, 0x65, 0x1A] @ replicate 508 0 @ [0x74, 0x0A, 0x6F, 0x1A, 0x1A]"

definition key_NAME :: jsstring where
  "key_NAME = [0x4E, 0x41, 0x4D, 0x45]"

definition key_NOTE :: jsstring where
  "key_NOTE = [0x4E, 0x4F, 0x54, 0x45]"

definition sampleFields :: "int FieldDescriptor list" where
  "sampleFields =
     [\<lparr> name = key_NAME, type = 0x43, size_f = 10, decimalPlaces = Some 0 \<rparr>,
      \<lparr> name = key_NOTE, type = 0x4D, size_f = 10, decimalPlaces = Some 0 \<rparr>]"

text \<open>The handle that \<^verbatim>\<open>openDBF\<close> returns for the sample file.\<close>

definition sampleDBF :: "ReadMode \<Rightarrow> bool \<Rightarrow> byte list option \<Rightarrow> DBFFile" where
  "sampleDBF mode inclDeleted memo =
     \<lparr> data = sampleFile, recordCount = 3, dateOfLastUpdate = (Some 2026, Some 11, Some 3),
       fieldsD = sampleFields, p_readMode = mode, p_encoding = Label ''latin1'',
       p_includeDeletedRecords = inclDeleted, p_recordsRead = 0, p_headerLength = 97,
       p_recordLength = 21, p_memoData = memo, p_version = Some 0x83 \<rparr>"


text \<open>The three records of the sample file, as they are decoded.\<close>

definition record1 :: Record where
  "record1 = \<lparr> entries = [(key_NAME, Text [0x41, 0x4C, 0x50, 0x48, 0x41]),
                          (key_NOTE, Text [0x6F, 0x6E, 0x65])], deleted = False \<rparr>"

definition record2 :: Record where
  "record2 = \<lparr> entries = [(key_NAME, Text [0x42, 0x45, 0x54, 0x41]),
                          (key_NOTE, Text ([0x74, 0x0A] @ replicate 16 0x20 @ [0x6F]))],
                deleted = True \<rparr>"

definition record3 :: Record where
  "record3 = \<lparr> entries = [(key_NAME, Text [0x47, 0x41, 0x4D, 0x4D, 0x41]), (key_NOTE, Null)],
                deleted = False \<rparr>"

text \<open>
  A header with no field: the version \<open>ver\<close>, no record, header length 33, the record length
  \<open>rl\<close>, and \<open>term\<close> where the terminator belongs.
\<close>

definition tinyFile :: "byte \<Rightarrow> byte \<Rightarrow> byte \<Rightarrow> byte list" where
  "tinyFile ver rl term =
     [ver, 0x7e, 0x0b, 0x03, 0, 0, 0, 0, 0x21, 0, rl, 0,
      0, 0, 0, 0, 0, 0, 0, 0, 0, 0, 0, 0, 0, 0, 0, 0, 0, 0, 0, 0, term]"

text \<open>The sample header with the first descriptor twice: two fields named NAME.\<close>

definition dupFile :: "byte list" where
  "dupFile = take 64 sampleHeader @ take 32 (drop 32 sampleHeader) @ [0x0D]"

text \<open>The sample file with 99 for the record length in the header.\<close>

definition badLengthFile :: "byte list" where
  "badLengthFile = take 10 sampleFile @ [0x63] @ drop 11 sampleFile"

text \<open>
  A Visual FoxPro file (version 0x30) with the memo field NOTE, M(4), and one record that
  points to block 1; and its memo file, with blocks of 8 bytes, where block 1 holds a
  picture (type 0) of 4 bytes.
\<close>

definition vfpFile :: "byte list" where
  "vfpFile =
     [0x30, 0x7e, 0x0b, 0x03, 1, 0, 0, 0, 0x41, 0, 5, 0,
      0, 0, 0, 0, 0, 0, 0, 0, 0, 0, 0, 0, 0, 0, 0, 0, 0, 0, 0, 0,
      0x4E, 0x4F, 0x54, 0x45, 0, 0, 0, 0, 0, 0, 0, 0x4D, 0, 0, 0, 0,
      4, 0, 0, 0, 0, 0, 0, 0, 0, 0, 0, 0, 0, 0, 0, 0,
      0x0D,
      0x20, 1, 0, 0, 0]"

definition vfpMemo :: "byte list" where
  "vfpMemo = [0, 0, 0, 3, 0, 0, 0, 8,
              0, 0, 0, 0, 0, 0, 0, 4,
              0xDE, 0xAD, 0xBE, 0xEF, 0, 0, 0, 0]"

definition vfpField :: "int FieldDescriptor" where
  "vfpField = \<lparr> name = key_NOTE, type = 0x4D, size_f = 4, decimalPlaces = Some 0 \<rparr>"

definition vfpDBF :: "ReadMode \<Rightarrow> byte list option \<Rightarrow> DBFFile" where
  "vfpDBF mode memo =
     \<lparr> data = vfpFile, recordCount = 1, dateOfLastUpdate = (Some 2026, Some 11, Some 3),
       fieldsD = [vfpField], p_readMode = mode, p_encoding = Label ''latin1'',
       p_includeDeletedRecords = False, p_recordsRead = 0, p_headerLength = 65,
       p_recordLength = 5, p_memoData = memo, p_version = Some 0x30 \<rparr>"

text \<open>
  A dBase III file without memo file (version 0x03): the field CODE, C(1), and three
  records of 2 bytes, \<open>A\<close>, \<open>B\<close> and \<open>C\<close>, none deleted; and the handle that \<^verbatim>\<open>openDBF\<close>
  returns for it.
\<close>

definition codeFile :: "byte list" where
  "codeFile =
     [0x03, 0x7e, 0x0b, 0x03, 3, 0, 0, 0, 0x41, 0, 2, 0,
      0, 0, 0, 0, 0, 0, 0, 0, 0, 0, 0, 0, 0, 0, 0, 0, 0, 0, 0, 0,
      0x43, 0x4F, 0x44, 0x45, 0, 0, 0, 0, 0, 0, 0, 0x43, 0, 0, 0, 0,
      1, 0, 0, 0, 0, 0, 0, 0, 0, 0, 0, 0, 0, 0, 0, 0,
      0x0D,
      0x20, 0x41, 0x20, 0x42, 0x20, 0x43]"

definition key_CODE :: jsstring where
  "key_CODE = [0x43, 0x4F, 0x44, 0x45]"

definition codeField :: "int FieldDescriptor" where
  "codeField = \<lparr> name = key_CODE, type = 0x43, size_f = 1, decimalPlaces = Some 0 \<rparr>"

definition codeDBF :: DBFFile where
  "codeDBF =
     \<lparr> data = codeFile, recordCount = 3, dateOfLastUpdate = (Some 2026, Some 11, Some 3),
       fieldsD = [codeField], p_readMode = Strict, p_encoding = Label ''latin1'',
       p_includeDeletedRecords = False, p_recordsRead = 0, p_headerLength = 65,
       p_recordLength = 2, p_memoData = None, p_version = Some 0x03 \<rparr>"

text \<open>
  A file for the loose mode: the field FLAG, of type L with the size 2, and two records
  of 3 bytes, the second with 0x2A for its first byte; and the handle that \<^verbatim>\<open>openDBF\<close>
  returns for it in loose mode.
\<close>

definition flagFile :: "byte list" where
  "flagFile =
     [0x03, 0x7e, 0x0b, 0x03, 2, 0, 0, 0, 0x41, 0, 3, 0,
      0, 0, 0, 0, 0, 0, 0, 0, 0, 0, 0, 0, 0, 0, 0, 0, 0, 0, 0, 0,
      0x46, 0x4C, 0x41, 0x47, 0, 0, 0, 0, 0, 0, 0, 0x4C, 0, 0, 0, 0,
      2, 0, 0, 0, 0, 0, 0, 0, 0, 0, 0, 0, 0, 0, 0, 0,
      0x0D,
      0x20, 0x54, 0x20, 0x2A, 0x46, 0x20]"

definition key_FLAG :: jsstring where
  "key_FLAG = [0x46, 0x4C, 0x41, 0x47]"

definition flagField :: "int FieldDescriptor" where
  "flagField = \<lparr> name = key_FLAG, type = 0x4C, size_f = 2, decimalPlaces = Some 0 \<rparr>"

definition flagDBF :: DBFFile where
  "flagDBF =
     \<lparr> data = flagFile, recordCount = 2, dateOfLastUpdate = (Some 2026, Some 11, Some 3),
       fieldsD = [flagField], p_readMode = Loose, p_encoding = Label ''latin1'',
       p_includeDeletedRecords = False, p_recordsRead = 0, p_headerLength = 65,
       p_recordLength = 3, p_memoData = None, p_version = Some 0x03 \<rparr>"


section \<open>Properties of the read loop\<close>

lemma calculateRecordLength_sum:
  "calculateRecordLengthInBytes fs = 1 + sum_list (map size_f fs)"
proof -
  have "foldl (\<lambda>len f. len + size_f f) a fs = a + sum_list (map size_f fs)" for a
    by (induction fs arbitrary: a) simp_all
  then show ?thesis by (simp add: calculateRecordLengthInBytes_def)
qed

lemma pushed_append: "pushed (a @ b) = pushed a @ pushed b"
  by (induction a rule: pushed.induct) simp_all

lemma length_pushed_le: "length (pushed a) \<le> length a"
  by (induction a rule: pushed.induct) simp_all

lemma pushed_count: "length a = length (pushed a) + count_list a None"
  by (induction a rule: pushed.induct) simp_all

lemma parseRecords_length:
  "parseRecords td dbf mbs mv bo buf n off = Inr rs \<Longrightarrow> length rs = n"
  by (induction n arbitrary: off rs) (auto split: sum.splits)

lemma parseRecord_live:
  "parseRecord td dbf mbs mv bo buf off = Inr (Some r, off') \<Longrightarrow>
   \<not> p_includeDeletedRecords dbf \<Longrightarrow> \<not> deleted r"
  by (auto simp: parseRecord_def Let_def split: if_splits sum.splits)

lemma parseRecords_live:
  "parseRecords td dbf mbs mv bo buf n off = Inr rs \<Longrightarrow>
   \<not> p_includeDeletedRecords dbf \<Longrightarrow> \<forall>r\<in>set (pushed rs). \<not> deleted r"
proof (induction n arbitrary: off rs)
  case 0
  then show ?case by simp
next
  case (Suc n)
  from Suc.prems(1) obtain r off' rs' where
    r: "parseRecord td dbf mbs mv bo buf off = Inr (r, off')" and
    rs': "parseRecords td dbf mbs mv bo buf n off' = Inr rs'" and eq: "rs = r # rs'"
    by (auto split: sum.splits)
  from Suc.IH[OF rs' Suc.prems(2)] have "\<forall>x\<in>set (pushed rs'). \<not> deleted x" .
  then show ?case
    using eq r parseRecord_live[OF _ Suc.prems(2)] by (cases r) auto
qed

lemma window_byteAt:
  "window buf bo len = Inr w \<Longrightarrow> 0 \<le> j \<Longrightarrow> j < len \<Longrightarrow> byteAt w j = byteAt buf (bo + j)"
  by (auto simp: window_def byteAt_def nat_add_distrib split: if_splits)

text \<open>How far the offset moves over a field, a record and a chunk.\<close>

lemma decodeField_offset:
  assumes "decodeField td dbf mbs mv bo buf off f = Inr (v, off')"
      and "type f = 0x4C \<longrightarrow> size_f f = 1"
      and "type f = 0x54 \<or> type f = 0x44 \<longrightarrow> size_f f = 8"
  shows "off' = off + size_f f"
proof -
  consider "type f = 0x43" | "type f = 0x4E \<or> type f = 0x46" | "type f = 0x4C" | "type f = 0x54"
    | "type f = 0x44" | "type f = 0x42" | "type f = 0x49" | "type f = 0x4D"
    | "type f \<notin> {0x43, 0x4E, 0x46, 0x4C, 0x54, 0x44, 0x42, 0x49, 0x4D}"
    by auto
  then show ?thesis
  proof cases
    case 1
    with assms show ?thesis
      by (simp add: decodeField_def Let_def split: if_splits sum.splits)
  next
    case 2
    with assms show ?thesis
      by (auto simp add: decodeField_def Let_def split: if_splits sum.splits)
  next
    case 3
    with assms show ?thesis
      by (simp add: decodeField_def Let_def)
  next
    case 4
    with assms show ?thesis
      by (simp add: decodeField_def Let_def split: if_splits sum.splits)
  next
    case 5
    with assms show ?thesis
      by (simp add: decodeField_def Let_def split: if_splits sum.splits)
  next
    case 6
    with assms show ?thesis
      by (simp add: decodeField_def Let_def split: if_splits sum.splits)
  next
    case 7
    with assms show ?thesis
      by (simp add: decodeField_def Let_def split: if_splits sum.splits)
  next
    case 8
    with assms show ?thesis
      by (simp add: decodeField_def Let_def split: if_splits sum.splits)
  next
    case 9
    with assms show ?thesis
      by (simp add: decodeField_def Let_def split: if_splits)
  qed
qed

lemma parseFields_offset:
  "parseFields td dbf mbs mv bo buf off fs props = Inr (props', off') \<Longrightarrow> ownSize fs \<Longrightarrow>
   off' = off + sum_list (map size_f fs)"
proof (induction fs arbitrary: off props)
  case Nil
  then show ?case by simp
next
  case (Cons f fs)
  from Cons.prems(1) obtain v off1 where
    d: "decodeField td dbf mbs mv bo buf off f = Inr (v, off1)" and
    r: "parseFields td dbf mbs mv bo buf off1 fs
          (case v of None \<Rightarrow> props | Some x \<Rightarrow> setProperty props (name f) x) = Inr (props', off')"
    by (auto split: sum.splits)
  from Cons.prems(2) have f: "type f = 0x4C \<longrightarrow> size_f f = 1"
      "type f = 0x54 \<or> type f = 0x44 \<longrightarrow> size_f f = 8" and fs: "ownSize fs"
    by (simp_all add: ownSize_def)
  from decodeField_offset[OF d f] Cons.IH[OF r fs] show ?case by simp
qed

lemma ownSize_length: "ownSize fs \<Longrightarrow> 1 \<le> calculateRecordLengthInBytes fs"
proof -
  have "ownSize fs \<Longrightarrow> 0 \<le> sum_list (map size_f fs)"
    by (induction fs) (simp_all add: ownSize_def)
  then show "ownSize fs \<Longrightarrow> 1 \<le> calculateRecordLengthInBytes fs"
    by (simp add: calculateRecordLength_sum)
qed

lemma parseRecord_treated:
  "parseRecord td dbf mbs mv bo buf off = Inr (r, off') \<Longrightarrow>
   treated (p_includeDeletedRecords dbf) (byteAt buf off) r"
  by (auto simp: parseRecord_def treated_def Let_def split: if_splits sum.splits)

lemma parseRecord_offset:
  assumes "parseRecord td dbf mbs mv bo buf off = Inr (r, off')"
      and "ownSize (fieldsD dbf)"
      and "p_recordLength dbf = calculateRecordLengthInBytes (fieldsD dbf)"
  shows "off' = off + p_recordLength dbf"
  using assms parseFields_offset[of td dbf mbs mv bo buf "off + 1" "fieldsD dbf" "[]"]
  by (auto simp: parseRecord_def Let_def calculateRecordLength_sum split: if_splits sum.splits)

lemma parseRecords_treated:
  assumes "parseRecords td dbf mbs mv bo buf n off = Inr rs"
      and "ownSize (fieldsD dbf)"
      and "p_recordLength dbf = calculateRecordLengthInBytes (fieldsD dbf)"
  shows "\<forall>i<n. treated (p_includeDeletedRecords dbf)
                  (byteAt buf (off + int i * p_recordLength dbf)) (rs ! i)"
  using assms(1)
proof (induction n arbitrary: off rs)
  case 0
  then show ?case by simp
next
  case (Suc n)
  from Suc.prems obtain r off1 rs' where
    r: "parseRecord td dbf mbs mv bo buf off = Inr (r, off1)" and
    rs': "parseRecords td dbf mbs mv bo buf n off1 = Inr rs'" and eq: "rs = r # rs'"
    by (auto split: sum.splits)
  note t = parseRecord_treated[OF r]
  note o = parseRecord_offset[OF r assms(2,3)]
  note ih = Suc.IH[OF rs']
  show ?case
  proof (intro allI impI)
    fix i assume i: "i < Suc n"
    show "treated (p_includeDeletedRecords dbf)
            (byteAt buf (off + int i * p_recordLength dbf)) (rs ! i)"
    proof (cases i)
      case 0
      with t eq show ?thesis by simp
    next
      case (Suc k)
      with i have "k < n" by simp
      with ih have "treated (p_includeDeletedRecords dbf)
                      (byteAt buf (off1 + int k * p_recordLength dbf)) (rs' ! k)" by simp
      with Suc eq o show ?thesis by (simp add: algebra_simps)
    qed
  qed
qed

lemma toIndex_whole: "toIndex (of_int x) = x"
  by (simp add: toIndex_def)

lemma recordCountToRead_whole:
  "p_recordsRead dbf = of_int c \<Longrightarrow>
   recordCountToRead dbf (of_int m) (of_nat len)
     = of_int (min (min (recordCount dbf - c) (m - int len)) (min m 1000))"
  by (simp add: recordCountToRead_def of_int_min)

lemma readChunk_whole:
  assumes rc: "readChunk td mbs mv dbf (of_int n) = (Inr outs, dbf')"
      and cur: "p_recordsRead dbf = of_int c"
  shows "length outs = nat n"
    and "dbf' = dbf\<lparr>p_recordsRead := of_int (c + n)\<rparr>"
    and "\<not> p_includeDeletedRecords dbf \<Longrightarrow> \<forall>r\<in>set (pushed outs). \<not> deleted r"
    and "ownSize (fieldsD dbf) \<Longrightarrow>
         p_recordLength dbf = calculateRecordLengthInBytes (fieldsD dbf) \<Longrightarrow>
         \<forall>i<nat n. treated (p_includeDeletedRecords dbf) (recordFlag dbf (c + int i)) (outs ! i)"
proof -
  let ?bo = "p_headerLength dbf + c * p_recordLength dbf"
  let ?d = "dbf\<lparr>p_recordsRead := of_int (c + n)\<rparr>"
  have bo: "toIndex (of_int (p_headerLength dbf) + p_recordsRead dbf * of_int (p_recordLength dbf))
            = ?bo"
    using toIndex_whole[of ?bo] cur by simp
  have len: "toIndex (of_int (p_recordLength dbf) * of_int n) = p_recordLength dbf * n"
    using toIndex_whole[of "p_recordLength dbf * n"] by simp
  have step: "readChunk td mbs mv dbf (of_int n) =
          (case window (data dbf) ?bo (p_recordLength dbf * n) of
             Inl e \<Rightarrow> (Inl e, dbf)
           | Inr buffer \<Rightarrow> (parseRecords td ?d mbs mv ?bo buffer (nat n) 0, ?d))"
    unfolding readChunk_def Let_def bo len by (simp add: cur cong: sum.case_cong)
  have "\<exists>buf. window (data dbf) ?bo (p_recordLength dbf * n) = Inr buf
            \<and> parseRecords td ?d mbs mv ?bo buf (nat n) 0 = Inr outs \<and> dbf' = ?d"
  proof (cases "window (data dbf) ?bo (p_recordLength dbf * n)")
    case (Inl e)
    from rc[unfolded step Inl] show ?thesis by simp
  next
    case (Inr buf)
    from rc[unfolded step Inr]
    have "(parseRecords td ?d mbs mv ?bo buf (nat n) 0, ?d) = (Inr outs, dbf')"
      by (simp only: sum.case)
    then have e: "parseRecords td ?d mbs mv ?bo buf (nat n) 0 = Inr outs \<and> ?d = dbf'"
      by (rule iffD1[OF prod.inject])
    from e have a: "parseRecords td ?d mbs mv ?bo buf (nat n) 0 = Inr outs" by (rule conjunct1)
    from e have b: "?d = dbf'" by (rule conjunct2)
    from Inr a b[symmetric] show ?thesis by (intro exI[of _ buf] conjI)
  qed
  then obtain buf where
    w: "window (data dbf) ?bo (p_recordLength dbf * n) = Inr buf" and
    p: "parseRecords td ?d mbs mv ?bo buf (nat n) 0 = Inr outs" and
    d: "dbf' = ?d"
    by blast
  from p show "length outs = nat n" by (rule parseRecords_length)
  from d show "dbf' = ?d" .
  show "\<forall>r\<in>set (pushed outs). \<not> deleted r" if "\<not> p_includeDeletedRecords dbf"
    using parseRecords_live[OF p] that by simp
  assume own: "ownSize (fieldsD dbf)"
     and rl: "p_recordLength dbf = calculateRecordLengthInBytes (fieldsD dbf)"
  from ownSize_length[OF own] rl have pos: "1 \<le> p_recordLength dbf" by simp
  from parseRecords_treated[OF p] own rl
  have t: "\<forall>i<nat n. treated (p_includeDeletedRecords dbf)
                       (byteAt buf (int i * p_recordLength dbf)) (outs ! i)"
    by simp
  show "\<forall>i<nat n. treated (p_includeDeletedRecords dbf) (recordFlag dbf (c + int i)) (outs ! i)"
  proof (intro allI impI)
    fix i assume i: "i < nat n"
    then have "int i < n" by simp
    then have "p_recordLength dbf * int i < p_recordLength dbf * n"
      using pos by (intro mult_strict_left_mono) simp_all
    then have lt: "int i * p_recordLength dbf < p_recordLength dbf * n"
      by (simp only: mult.commute)
    have ge: "0 \<le> int i * p_recordLength dbf" using pos by simp
    from window_byteAt[OF w ge lt]
    have eq: "byteAt buf (int i * p_recordLength dbf) = recordFlag dbf (c + int i)"
      by (simp add: recordFlag_def algebra_simps)
    from t i have "treated (p_includeDeletedRecords dbf)
                     (byteAt buf (int i * p_recordLength dbf)) (outs ! i)"
      by blast
    then show "treated (p_includeDeletedRecords dbf) (recordFlag dbf (c + int i)) (outs ! i)"
      by (simp only: eq)
  qed
qed


lemma recordFlag_cursor [simp]: "recordFlag (dbf\<lparr>p_recordsRead := x\<rparr>) k = recordFlag dbf k"
  by (simp add: recordFlag_def)

lemma scanLoop_whole:
  "scanLoop td maxCount mbs mv dbf scanned = (Inr res, dbf') \<Longrightarrow>
   maxCount = of_int m \<Longrightarrow> p_recordsRead dbf = of_int c \<Longrightarrow>
   \<exists>outs. res = scanned @ outs
     \<and> dbf' = dbf\<lparr>p_recordsRead := of_int (c + int (length outs))\<rparr>
     \<and> int (length (pushed res)) \<le> max m (int (length (pushed scanned)))
     \<and> (int (length (pushed res)) < m \<longrightarrow> recordCount dbf \<le> c + int (length outs))
     \<and> (\<not> p_includeDeletedRecords dbf \<longrightarrow> (\<forall>r\<in>set (pushed outs). \<not> deleted r))
     \<and> (ownSize (fieldsD dbf)
          \<and> p_recordLength dbf = calculateRecordLengthInBytes (fieldsD dbf) \<longrightarrow>
          (\<forall>i<length outs. treated (p_includeDeletedRecords dbf)
                              (recordFlag dbf (c + int i)) (outs ! i)))"
proof (induction td maxCount mbs mv dbf scanned arbitrary: res dbf' c rule: scanLoop.induct)
  case (1 td maxCount mbs mv dbf scanned)
  let ?len = "length (pushed scanned)"
  let ?k = "min (min (recordCount dbf - c) (m - int ?len)) (min m 1000)"
  let ?n = "recordCountToRead dbf maxCount (of_nat ?len)"
  note mc = "1.prems"(2) and cur = "1.prems"(3)
  have n: "?n = of_int ?k"
    unfolding mc by (rule recordCountToRead_whole[OF cur])
  have c1: "(p_recordsRead dbf < of_int (recordCount dbf)) = (c < recordCount dbf)"
    unfolding cur by (rule of_int_less_iff)
  have "(of_nat ?len < maxCount) = ((of_int (int ?len) :: rat) < of_int m)"
    unfolding mc by simp
  then have c2: "(of_nat ?len < maxCount) = (int ?len < m)"
    by (simp only: of_int_less_iff)
  show ?case
  proof (cases "c < recordCount dbf \<and> int ?len < m")
    case False
    with "1.prems"(1) have "res = scanned" "dbf' = dbf"
      by (simp_all add: scanLoop.simps[of td maxCount mbs mv dbf scanned] c1 c2)
    moreover have "dbf = dbf\<lparr>p_recordsRead := of_int c\<rparr>"
      using cur by simp
    ultimately show ?thesis using False by (intro exI[of _ "[]"]) auto
  next
    case True
    then have k: "1 \<le> ?k" "?k \<le> m - int ?len" by auto
    from True have run: "p_recordsRead dbf < of_int (recordCount dbf) \<and> of_nat ?len < maxCount"
      by (simp only: c1 c2)
    from k(1) have "?k \<noteq> 0" by linarith
    then have n0: "?n \<noteq> 0" unfolding n by (simp only: of_int_eq_0_iff not_False_eq_True)
    obtain r d where rc: "readChunk td mbs mv dbf ?n = (r, d)"
      by (cases "readChunk td mbs mv dbf ?n")
    from "1.prems"(1) run n0 rc have "(case r of Inl e \<Rightarrow> (Inl e, d)
        | Inr outs \<Rightarrow> scanLoop td maxCount mbs mv d (scanned @ outs)) = (Inr res, dbf')"
      by (simp add: scanLoop.simps[of td maxCount mbs mv dbf scanned])
    then obtain outs where r: "r = Inr outs"
      and rec: "scanLoop td maxCount mbs mv d (scanned @ outs) = (Inr res, dbf')"
      by (cases r) simp_all
    from rc r have rc': "readChunk td mbs mv dbf ?n = (Inr outs, d)" by simp
    from rc' have rc'': "readChunk td mbs mv dbf (of_int ?k) = (Inr outs, d)"
      by (simp only: n)
    note ch = readChunk_whole[OF rc'' cur]
    have lo: "int (length outs) = ?k" using ch(1) k(1) by simp
    have cur': "p_recordsRead d = of_int (c + ?k)" using ch(2) by simp
    from "1.IH"[OF run n0 rc'[symmetric] refl rec mc cur']
    obtain outs' where o: "res = (scanned @ outs) @ outs'"
      and d': "dbf' = d\<lparr>p_recordsRead := of_int (c + ?k + int (length outs'))\<rparr>"
      and le: "int (length (pushed res)) \<le> max m (int (length (pushed (scanned @ outs))))"
      and ex: "int (length (pushed res)) < m \<longrightarrow> recordCount d \<le> c + ?k + int (length outs')"
      and lv: "\<not> p_includeDeletedRecords d \<longrightarrow> (\<forall>r\<in>set (pushed outs'). \<not> deleted r)"
      and fl: "ownSize (fieldsD d) \<and> p_recordLength d = calculateRecordLengthInBytes (fieldsD d)
               \<longrightarrow> (\<forall>i<length outs'. treated (p_includeDeletedRecords d)
                                          (recordFlag d (c + ?k + int i)) (outs' ! i))"
      by blast
    have "int (length (pushed outs)) \<le> ?k"
      using length_pushed_le[of outs] lo by linarith
    then have bound: "int (length (pushed (scanned @ outs))) \<le> m"
      using k(2) by (simp add: pushed_append)
    have 1: "res = scanned @ (outs @ outs')" using o by simp
    have 2: "dbf' = dbf\<lparr>p_recordsRead := of_int (c + int (length (outs @ outs')))\<rparr>"
      using d' ch(2) lo by simp
    have 3: "int (length (pushed res)) \<le> max m (int ?len)"
      using le bound by simp
    have rcd: "recordCount d = recordCount dbf" using ch(2) by simp
    have tot: "c + int (length (outs @ outs')) = c + ?k + int (length outs')"
      using lo by simp
    have 4: "int (length (pushed res)) < m \<longrightarrow>
             recordCount dbf \<le> c + int (length (outs @ outs'))"
      using ex unfolding rcd tot .
    have 6: "\<not> p_includeDeletedRecords dbf \<longrightarrow>
             (\<forall>r\<in>set (pushed (outs @ outs')). \<not> deleted r)"
      using lv ch(2,3) by (auto simp: pushed_append)
    have 5: "ownSize (fieldsD dbf)
             \<and> p_recordLength dbf = calculateRecordLengthInBytes (fieldsD dbf) \<longrightarrow>
             (\<forall>i<length (outs @ outs'). treated (p_includeDeletedRecords dbf)
                                          (recordFlag dbf (c + int i)) ((outs @ outs') ! i))"
    proof (intro impI allI)
      fix i
      assume al: "ownSize (fieldsD dbf)
                  \<and> p_recordLength dbf = calculateRecordLengthInBytes (fieldsD dbf)"
         and i: "i < length (outs @ outs')"
      from al ch(4) lo have a: "\<forall>i<length outs. treated (p_includeDeletedRecords dbf)
                                    (recordFlag dbf (c + int i)) (outs ! i)"
        by simp
      from al fl ch(2) have b: "\<forall>i<length outs'. treated (p_includeDeletedRecords dbf)
                                     (recordFlag dbf (c + ?k + int i)) (outs' ! i)"
        by simp
      show "treated (p_includeDeletedRecords dbf) (recordFlag dbf (c + int i)) ((outs @ outs') ! i)"
      proof (cases "i < length outs")
        case True
        with a show ?thesis by (simp add: nth_append)
      next
        case False
        with i have j: "i - length outs < length outs'" by simp
        from False have eq: "c + ?k + int (i - length outs) = c + int i"
          using lo by linarith
        from False have nth: "(outs @ outs') ! i = outs' ! (i - length outs)"
          by (simp add: nth_append)
        from b j have "treated (p_includeDeletedRecords dbf)
                         (recordFlag dbf (c + ?k + int (i - length outs)))
                         (outs' ! (i - length outs))"
          by blast
        then show ?thesis unfolding eq nth .
      qed
    qed
    show ?thesis by (intro exI[of _ "outs @ outs'"] conjI 1 2 3 4 6 5)
  qed
qed

text \<open>The call returns the records that the scan pushes, and leaves the same handle.\<close>

lemma readLoop_scanLoop:
  "readLoop td maxCount mbs mv dbf (pushed scanned) =
   returned (scanLoop td maxCount mbs mv dbf scanned)"
proof (induction td maxCount mbs mv dbf scanned rule: scanLoop.induct)
  case (1 td maxCount mbs mv dbf scanned)
  let ?len = "of_nat (length (pushed scanned)) :: rat"
  let ?n = "recordCountToRead dbf maxCount ?len"
  show ?case
  proof (cases "p_recordsRead dbf < of_int (recordCount dbf) \<and> ?len < maxCount \<and> ?n \<noteq> 0")
    case False
    then show ?thesis
      by (auto simp: scanLoop.simps[of td maxCount mbs mv dbf scanned] returned_def
                     readLoop.simps[of td maxCount mbs mv dbf "pushed scanned"])
  next
    case True
    obtain r d where rc: "readChunk td mbs mv dbf ?n = (r, d)"
      by (cases "readChunk td mbs mv dbf ?n")
    show ?thesis
    proof (cases r)
      case (Inl e)
      with True rc show ?thesis
        by (simp add: scanLoop.simps[of td maxCount mbs mv dbf scanned] returned_def
                      readLoop.simps[of td maxCount mbs mv dbf "pushed scanned"])
    next
      case (Inr outs)
      from True have c: "p_recordsRead dbf < of_int (recordCount dbf) \<and> ?len < maxCount"
        and n0: "?n \<noteq> 0"
        by auto
      from "1.IH"[OF c n0 rc[symmetric] Inr]
      have "readLoop td maxCount mbs mv d (pushed (scanned @ outs)) =
            returned (scanLoop td maxCount mbs mv d (scanned @ outs))" .
      with True rc Inr show ?thesis
        by (simp add: scanLoop.simps[of td maxCount mbs mv dbf scanned]
                      readLoop.simps[of td maxCount mbs mv dbf "pushed scanned"] pushed_append)
    qed
  qed
qed

lemma readRecords_scanRecords:
  "readRecordsFromDBF td dbf maxCount = returned (scanRecordsFromDBF td dbf maxCount)"
proof (cases "p_memoData dbf")
  case None
  then show ?thesis
    using readLoop_scanLoop[of td maxCount 0 None dbf "[]"]
    by (simp add: readRecordsFromDBF_def scanRecordsFromDBF_def)
next
  case (Some memo)
  show ?thesis
  proof (cases "memoBlockSizeOf (p_version dbf) memo")
    case (Inl e)
    with Some show ?thesis
      by (simp add: readRecordsFromDBF_def scanRecordsFromDBF_def returned_def)
  next
    case (Inr mbs)
    with Some show ?thesis
      using readLoop_scanLoop[of td maxCount mbs "Some memo" dbf "[]"]
      by (simp add: readRecordsFromDBF_def scanRecordsFromDBF_def)
  qed
qed

lemma scanRecords_whole:
  assumes "scanRecordsFromDBF td dbf (of_int m) = (Inr outs, dbf')"
      and "p_recordsRead dbf = of_int c"
  shows "dbf' = dbf\<lparr>p_recordsRead := of_int (c + int (length outs))\<rparr>"
    and "int (length (pushed outs)) \<le> max m 0"
    and "int (length (pushed outs)) < m \<longrightarrow> recordCount dbf \<le> c + int (length outs)"
    and "ownSize (fieldsD dbf)
         \<and> p_recordLength dbf = calculateRecordLengthInBytes (fieldsD dbf) \<longrightarrow>
         (\<forall>i<length outs. treated (p_includeDeletedRecords dbf)
                             (recordFlag dbf (c + int i)) (outs ! i))"
    and "\<not> p_includeDeletedRecords dbf \<longrightarrow> (\<forall>r\<in>set (pushed outs). \<not> deleted r)"
proof -
  from assms(1) obtain mbs mv where "scanLoop td (of_int m) mbs mv dbf [] = (Inr outs, dbf')"
    by (auto simp: scanRecordsFromDBF_def split: option.splits sum.splits)
  from scanLoop_whole[OF this refl assms(2)]
  obtain outs' where o: "outs = [] @ outs'"
    and 1: "dbf' = dbf\<lparr>p_recordsRead := of_int (c + int (length outs'))\<rparr>"
    and 2: "int (length (pushed outs)) \<le> max m (int (length (pushed [])))"
    and 3: "int (length (pushed outs)) < m \<longrightarrow> recordCount dbf \<le> c + int (length outs')"
    and 5: "\<not> p_includeDeletedRecords dbf \<longrightarrow> (\<forall>r\<in>set (pushed outs'). \<not> deleted r)"
    and 4: "ownSize (fieldsD dbf)
         \<and> p_recordLength dbf = calculateRecordLengthInBytes (fieldsD dbf) \<longrightarrow>
         (\<forall>i<length outs'. treated (p_includeDeletedRecords dbf)
                             (recordFlag dbf (c + int i)) (outs' ! i))"
    by blast
  from o have o': "outs' = outs" by simp
  from 1 show "dbf' = dbf\<lparr>p_recordsRead := of_int (c + int (length outs))\<rparr>"
    unfolding o' .
  from 2 show "int (length (pushed outs)) \<le> max m 0" by simp
  from 3 show "int (length (pushed outs)) < m \<longrightarrow> recordCount dbf \<le> c + int (length outs)"
    unfolding o' .
  from 4 show "ownSize (fieldsD dbf)
         \<and> p_recordLength dbf = calculateRecordLengthInBytes (fieldsD dbf) \<longrightarrow>
         (\<forall>i<length outs. treated (p_includeDeletedRecords dbf)
                             (recordFlag dbf (c + int i)) (outs ! i))"
    unfolding o' .
  from 5 show "\<not> p_includeDeletedRecords dbf \<longrightarrow> (\<forall>r\<in>set (pushed outs). \<not> deleted r)"
    unfolding o' .
qed

lemma session_whole:
  "session td dbf scanned dbf' \<Longrightarrow> p_recordsRead dbf = of_int c \<Longrightarrow>
   dbf' = dbf\<lparr>p_recordsRead := of_int (c + int (length scanned))\<rparr>
   \<and> (ownSize (fieldsD dbf)
        \<and> p_recordLength dbf = calculateRecordLengthInBytes (fieldsD dbf) \<longrightarrow>
        (\<forall>i<length scanned. treated (p_includeDeletedRecords dbf)
                                (recordFlag dbf (c + int i)) (scanned ! i)))"
proof (induction rule: session.induct)
  case opened
  then show ?case by simp
next
  case (call scanned dbf' maxCount outs dbf'')
  from call.IH[OF call.prems]
  have d: "dbf' = dbf\<lparr>p_recordsRead := of_int (c + int (length scanned))\<rparr>"
    and fl: "ownSize (fieldsD dbf)
        \<and> p_recordLength dbf = calculateRecordLengthInBytes (fieldsD dbf) \<longrightarrow>
        (\<forall>i<length scanned. treated (p_includeDeletedRecords dbf)
                                (recordFlag dbf (c + int i)) (scanned ! i))"
    by simp_all
  from d have cur: "p_recordsRead dbf' = of_int (c + int (length scanned))" by simp
  note r = scanRecords_whole[OF call.hyps(2) cur]
  have 1: "dbf'' = dbf\<lparr>p_recordsRead := of_int (c + int (length (scanned @ outs)))\<rparr>"
    using r(1) d by simp
  have 2: "ownSize (fieldsD dbf)
        \<and> p_recordLength dbf = calculateRecordLengthInBytes (fieldsD dbf) \<longrightarrow>
        (\<forall>i<length (scanned @ outs). treated (p_includeDeletedRecords dbf)
                                (recordFlag dbf (c + int i)) ((scanned @ outs) ! i))"
  proof (intro impI allI)
    fix i
    assume al: "ownSize (fieldsD dbf)
                \<and> p_recordLength dbf = calculateRecordLengthInBytes (fieldsD dbf)"
       and i: "i < length (scanned @ outs)"
    from al fl have a: "\<forall>i<length scanned. treated (p_includeDeletedRecords dbf)
                                (recordFlag dbf (c + int i)) (scanned ! i)"
      by simp
    from al r(4) d have b: "\<forall>i<length outs. treated (p_includeDeletedRecords dbf)
                             (recordFlag dbf (c + int (length scanned) + int i)) (outs ! i)"
      by simp
    show "treated (p_includeDeletedRecords dbf) (recordFlag dbf (c + int i)) ((scanned @ outs) ! i)"
    proof (cases "i < length scanned")
      case True
      with a show ?thesis by (simp add: nth_append)
    next
      case False
      with i have j: "i - length scanned < length outs" by simp
      from False have eq: "c + int (length scanned) + int (i - length scanned) = c + int i"
        by linarith
      from False have nth: "(scanned @ outs) ! i = outs ! (i - length scanned)"
        by (simp add: nth_append)
      from b j have "treated (p_includeDeletedRecords dbf)
                       (recordFlag dbf (c + int (length scanned) + int (i - length scanned)))
                       (outs ! (i - length scanned))"
        by blast
      then show ?thesis unfolding eq nth .
    qed
  qed
  from 1 2 show ?case by (rule conjI)
qed


section \<open>Properties of the header loop\<close>

lemma parse_loose_total:
  "mode = Loose \<Longrightarrow>
   \<exists>fs off'. parseFieldDescriptors d v mode fv buf hl off acc = Inr (fs, off')"
proof (induction d v mode fv buf hl off acc rule: parseFieldDescriptors.induct)
  case (1 d v mode fv buf hl off acc)
  show ?case
    using 1 by (subst parseFieldDescriptors.simps) auto
qed

lemma parse_success_loose:
  "parseFieldDescriptors d v mode fv buf hl off acc = Inr r \<Longrightarrow>
   parseFieldDescriptors d v' Loose fv' buf hl off acc = Inr r"
proof (induction d v mode fv buf hl off acc rule: parseFieldDescriptors.induct)
  case (1 d v mode fv buf hl off acc)
  show ?case
    using "1.prems" "1.IH"
    by (subst parseFieldDescriptors.simps, subst (asm) parseFieldDescriptors.simps)
       (auto split: if_splits option.splits)
qed

lemma parse_offset_decoder:
  "parseFieldDescriptors d v mode fv buf hl off acc = Inr (fs, off') \<Longrightarrow>
   parseFieldDescriptors d' v' mode fv' buf hl off acc' = Inr (fs', off'') \<Longrightarrow>
   mode = Loose \<Longrightarrow> off'' = off'"
proof (induction d v mode fv buf hl off acc arbitrary: acc' rule: parseFieldDescriptors.induct)
  case (1 d v mode fv buf hl off acc)
  show ?case
    using "1.prems" "1.IH"
    by (subst (asm) parseFieldDescriptors.simps, subst (asm) (2) parseFieldDescriptors.simps)
       (auto split: if_splits option.splits)
qed

lemma parse_strict_distinct:
  "parseFieldDescriptors d v mode fv buf hl off acc = Inr (fs, off') \<Longrightarrow> mode \<noteq> Loose \<Longrightarrow>
   distinct (map name acc) \<Longrightarrow> distinct (map name fs)"
proof (induction d v mode fv buf hl off acc rule: parseFieldDescriptors.induct)
  case (1 d v mode fv buf hl off acc)
  show ?case
    using "1.prems" "1.IH"
    by (subst (asm) parseFieldDescriptors.simps)
       (force split: if_splits option.splits simp: list_all_iff)
qed

lemma parse_offset_mono:
  "parseFieldDescriptors d v mode fv buf hl off acc = Inr (fs, off') \<Longrightarrow> off \<le> off'"
proof (induction d v mode fv buf hl off acc rule: parseFieldDescriptors.induct)
  case (1 d v mode fv buf hl off acc)
  show ?case
    using "1.prems" "1.IH"
    by (subst (asm) parseFieldDescriptors.simps)
       (fastforce split: if_splits option.splits)
qed

text \<open>
  When the byte after the table exists, every descriptor lies inside the buffer, so
  every size is a number.
\<close>

lemma parse_sizes_defined:
  "parseFieldDescriptors d v mode fv buf hl off acc = Inr (fs, off') \<Longrightarrow> 0 \<le> off \<Longrightarrow>
   byteAt buf off' \<noteq> None \<Longrightarrow> list_all (\<lambda>f. size_f f \<noteq> None) acc \<Longrightarrow>
   list_all (\<lambda>f. size_f f \<noteq> None) fs"
proof (induction d v mode fv buf hl off acc rule: parseFieldDescriptors.induct)
  case (1 d v mode fv buf hl off acc)
  have step: "list_all (\<lambda>f. size_f f \<noteq> None) (acc @ [readFieldDescriptor d buf off])"
    if "parseFieldDescriptors d v mode fv buf hl (off + 32) (acc @ [readFieldDescriptor d buf off])
          = Inr (fs, off')"
  proof -
    from parse_offset_mono[OF that] have "off + 32 \<le> off'" .
    moreover from "1.prems"(3) have "off' < int (length buf)"
      by (auto simp: byteAt_def split: if_splits)
    ultimately have "byteAt buf (off + 16) \<noteq> None"
      using "1.prems"(2) by (auto simp: byteAt_def)
    then show ?thesis
      using "1.prems"(4) by (auto simp: readFieldDescriptor_def)
  qed
  show ?case
    using "1.prems" "1.IH" step
    by (subst (asm) parseFieldDescriptors.simps)
       (auto split: if_splits option.splits)
qed

lemma tableEnd_eq:
  assumes "parseFieldDescriptors d v mode fv buf hl 32 [] = Inr (fs, off)"
  shows "tableEnd buf hl = off"
proof -
  have a: "parseFieldDescriptors d v Loose fv buf hl 32 [] = Inr (fs, off)"
    using assms by (rule parse_success_loose)
  obtain fs' off' where b:
    "parseFieldDescriptors (\<lambda>bytes. []) (\<lambda>field ver. None) Loose None buf hl 32 [] = Inr (fs', off')"
    using parse_loose_total[OF refl] by blast
  from parse_offset_decoder[OF a b refl] show ?thesis
    by (simp add: tableEnd_def b)
qed

lemma tableFields_eq:
  assumes "parseFieldDescriptors d v mode fv buf hl 32 [] = Inr (fs, off)"
  shows "tableFields d buf hl = fs"
  using parse_success_loose[OF assms, of "\<lambda>field ver. None" None] by (simp add: tableFields_def)

lemma getInt16_length:
  "getInt16 (subarray dat 10 12) le = Inr rl \<Longrightarrow> 12 \<le> length dat"
  by (auto simp: getInt16_def getUint_def subarray_def relIndex_def Let_def split: if_splits)

lemma getInt32_header:
  "12 \<le> length dat \<Longrightarrow> \<exists>x. getInt32 (subarray dat 4 8) le = Inr x"
  by (auto simp: getInt32_def getUint_def subarray_def relIndex_def Let_def)

lemma getInt16_header:
  "12 \<le> length dat \<Longrightarrow>
   (\<exists>x. getInt16 (subarray dat 8 10) le = Inr x) \<and> (\<exists>x. getInt16 (subarray dat 10 12) le = Inr x)"
  by (auto simp: getInt16_def getUint_def subarray_def relIndex_def Let_def)


section \<open>Evaluation on the samples\<close>

lemma trimTrailing_num:
  "trimTrailing b off 0 = 0"
  "trimTrailing b off 1 = (if byteAt b off = Some 0x20 then 0 else 1)"
  "trimTrailing b off (numeral n) =
     (if byteAt b (off + numeral n - 1) = Some 0x20 then trimTrailing b off (numeral n - 1)
      else numeral n)"
  by (subst trimTrailing.simps, simp)+

lemma parseRecords_num:
  "parseRecords td dbf mbs mv bo buf (numeral n) off =
     (case parseRecord td dbf mbs mv bo buf off of
        Inl e \<Rightarrow> Inl e
      | Inr (r, off') \<Rightarrow>
          (case parseRecords td dbf mbs mv bo buf (pred_numeral n) off' of
             Inl e \<Rightarrow> Inl e
           | Inr rs \<Rightarrow> Inr (r # rs)))"
  "parseRecords td dbf mbs mv bo buf 1 off =
     (case parseRecord td dbf mbs mv bo buf off of
        Inl e \<Rightarrow> Inl e
      | Inr (r, off') \<Rightarrow> Inr [r])"
  by (simp_all add: numeral_eq_Suc split: sum.splits)

lemmas eval_simps = byteAt_def subarray_def relIndex_def window_def uintBE_def uintLE_def
  toSigned_def getUint_def getUint16_def getUint32_def getInt16_def getInt32_def decodeBytes_def
  isValidFileVersion_def getEncoding_def calculateRecordLengthInBytes_def readFieldDescriptor_def
  definedSizes_def Let_def sampleDecoder_def acceptAll_def

lemmas memo_simps = readMemo_def ensureRange_def indexOfFrom_def collectBytes_def readInt32_def
  readUint32_def

lemma open_sample:
  "openDBF sampleDecoder acceptAll sampleFile memo
     \<lparr> opt_encoding = Label ''latin1'', opt_readMode = mode, opt_includeDeletedRecords = incl \<rparr>
   = Inr (sampleDBF mode incl memo)"
  by (cases mode)
     (simp_all add: openDBF_def eval_simps sampleDBF_def sampleFields_def
        parseFieldDescriptors.simps sampleFile_def sampleHeader_def sampleRecords_def
        key_NAME_def key_NOTE_def)

lemma open_vfp:
  "openDBF sampleDecoder acceptAll vfpFile memo
     \<lparr> opt_encoding = Label ''latin1'', opt_readMode = mode, opt_includeDeletedRecords = False \<rparr>
   = Inr (vfpDBF mode memo)"
  by (cases mode)
     (simp_all add: openDBF_def eval_simps vfpDBF_def vfpField_def
        parseFieldDescriptors.simps vfpFile_def key_NOTE_def)


section \<open>Claims about opening a file\<close>

lemma parse_strict_errors:
  "parseFieldDescriptors d v mode fv buf hl off acc = Inl e \<Longrightarrow> v = (\<lambda>f ver. None) \<Longrightarrow>
   \<exists>n. e = DuplicateFieldName n"
proof (induction d v mode fv buf hl off acc rule: parseFieldDescriptors.induct)
  case (1 d v mode fv buf hl off acc)
  show ?case
    using "1.prems" "1.IH"
    by (subst (asm) parseFieldDescriptors.simps) (auto split: if_splits option.splits)
qed

lemma parse_loose_not_Inl:
  "parseFieldDescriptors d v Loose fv buf hl off acc \<noteq> Inl e"
  using parse_loose_total[OF refl, of d v fv buf hl off acc] by auto

lemma getInt_errors:
  "getInt32 view le = Inl e \<Longrightarrow> e = RangeError"
  "getInt16 view le = Inl e \<Longrightarrow> e = RangeError"
  "getUint16 view le = Inl e \<Longrightarrow> e = RangeError"
  "getUint32 view le = Inl e \<Longrightarrow> e = RangeError"
  by (auto simp: getInt32_def getInt16_def getUint16_def getUint32_def getUint_def split: if_splits)

text \<open>
  C7. When the byte after the descriptor table is not 0x0D, \<^verbatim>\<open>openDBF\<close> throws, in strict
  mode and in loose mode; in loose mode, once the header numbers and the decoder are there,
  what it throws is the missing terminator.
\<close>

theorem openDBF_terminator_missing:
  assumes hl: "getInt16 (subarray dat 8 10) True = Inr hl"
      and nt: "byteAt dat (tableEnd dat hl) \<noteq> Some 0x0d"
  shows "isl (openDBF td v dat memo options) \<and>
         (opt_readMode options = Loose \<and> 12 \<le> length dat \<and>
          td (getEncoding (opt_encoding options) None) \<noteq> None \<longrightarrow>
          openDBF td v dat memo options = Inl HeaderTerminatorNotFound)"
proof -
  have fail: "byteAt dat off \<noteq> Some 0x0d"
    if "parseFieldDescriptors d v (opt_readMode options) (byteAt dat 0) dat hl 32 [] = Inr (fs, off)"
    for d fs off
    using tableEnd_eq[OF that] nt by simp
  have 1: "isl (openDBF td v dat memo options)"
    using hl fail by (auto simp: openDBF_def Let_def split: sum.splits option.splits)
  have 2: "openDBF td v dat memo options = Inl HeaderTerminatorNotFound"
    if m: "opt_readMode options = Loose" and len: "12 \<le> length dat"
       and enc: "td (getEncoding (opt_encoding options) None) \<noteq> None"
  proof -
    obtain d where d: "td (getEncoding (opt_encoding options) None) = Some d"
      using enc by blast
    obtain fs off where p:
      "parseFieldDescriptors d v (opt_readMode options) (byteAt dat 0) dat hl 32 [] = Inr (fs, off)"
      using parse_loose_total[OF m] by blast
    obtain rc rl where
      "getInt32 (subarray dat 4 8) True = Inr rc" "getInt16 (subarray dat 10 12) True = Inr rl"
      using getInt32_header[OF len] getInt16_header[OF len] by blast
    then show ?thesis
      using hl d p fail[OF p] m by (simp add: openDBF_def Let_def)
  qed
  from 1 2 show ?thesis by blast
qed

lemma tiny_headerLength: "getInt16 (subarray (tinyFile ver rl term) 8 10) True = Inr 33"
  by (simp add: eval_simps tinyFile_def)

lemma tiny_tableEnd:
  "tableEnd (tinyFile ver rl 0x0d) 33 = 32"
  "tableEnd (tinyFile ver rl 0) 33 = 64"
  by (simp_all add: tableEnd_def parseFieldDescriptors.simps byteAt_def tinyFile_def)

theorem openDBF_terminator_missing_witness:
  "isl (openDBF sampleDecoder acceptAll (tinyFile 0x03 1 0) None strictOptions) \<and>
   openDBF sampleDecoder acceptAll (tinyFile 0x03 1 0) None looseOptions
     = Inl HeaderTerminatorNotFound"
proof -
  have nt: "byteAt (tinyFile 0x03 1 0) (tableEnd (tinyFile 0x03 1 0) 33) \<noteq> Some 0x0d"
    unfolding tiny_tableEnd by (simp add: byteAt_def tinyFile_def)
  have len: "12 \<le> length (tinyFile 0x03 1 0)"
    by (simp add: tinyFile_def)
  show ?thesis
    using openDBF_terminator_missing[OF tiny_headerLength nt, of sampleDecoder acceptAll None strictOptions]
          openDBF_terminator_missing[OF tiny_headerLength nt, of sampleDecoder acceptAll None looseOptions]
          len
    by (simp add: looseOptions_def sampleDecoder_def getEncoding_def)
qed

text \<open>
  The descriptors that the header loop has collected stay in its result, and the strict
  loop, when the validator accepts the descriptors of the table, gives either the table or
  the duplicate-name error for one of its names.
\<close>

lemma parse_acc_subset:
  "parseFieldDescriptors d v mode fv buf hl off acc = Inr (fs, off') \<Longrightarrow> set acc \<subseteq> set fs"
proof (induction d v mode fv buf hl off acc rule: parseFieldDescriptors.induct)
  case (1 d v mode fv buf hl off acc)
  show ?case
    using "1.prems" "1.IH"
    by (subst (asm) parseFieldDescriptors.simps)
       (fastforce split: if_splits option.splits)
qed

lemma parse_strict_cases:
  "parseFieldDescriptors d v0 mode0 fv0 buf hl off acc = Inr (fs, off') \<Longrightarrow> mode0 = Loose \<Longrightarrow>
   \<forall>f\<in>set fs. v f fv = None \<Longrightarrow>
   parseFieldDescriptors d v mode fv buf hl off acc = Inr (fs, off')
   \<or> (\<exists>f\<in>set fs. parseFieldDescriptors d v mode fv buf hl off acc
                       = Inl (DuplicateFieldName (name f)))"
proof (induction d v0 mode0 fv0 buf hl off acc rule: parseFieldDescriptors.induct)
  case (1 d v0 mode0 fv0 buf hl off acc)
  let ?f = "readFieldDescriptor d buf off"
  show ?case
  proof (cases "hl > off \<and> byteAt buf off \<noteq> Some 0x0d")
    case False
    with "1.prems"(1) have "fs = acc \<and> off' = off"
      by (subst (asm) parseFieldDescriptors.simps) (auto split: if_splits)
    moreover from False have "parseFieldDescriptors d v mode fv buf hl off acc = Inr (acc, off)"
      by (subst parseFieldDescriptors.simps) auto
    ultimately show ?thesis by simp
  next
    case True
    with "1.prems"(1,2) have
      rec: "parseFieldDescriptors d v0 mode0 fv0 buf hl (off + 32) (acc @ [?f]) = Inr (fs, off')"
      by (subst (asm) parseFieldDescriptors.simps) simp
    from parse_acc_subset[OF rec] have fin: "?f \<in> set fs" by auto
    with "1.prems"(3) have ok: "v ?f fv = None" by blast
    from True "1.prems"(2) have c: "off < hl" "byteAt buf off \<noteq> Some 0x0d" "\<not> mode0 \<noteq> Loose"
      by simp_all
    note ih = "1.IH"(2)[OF c rec "1.prems"(2,3)]
    show ?thesis
    proof (cases "mode \<noteq> Loose \<and> \<not> list_all (\<lambda>g. name g \<noteq> name ?f) acc")
      case dup: True
      with True ok have "parseFieldDescriptors d v mode fv buf hl off acc
                          = Inl (DuplicateFieldName (name ?f))"
        by (subst parseFieldDescriptors.simps) simp
      with fin show ?thesis by blast
    next
      case False
      with True ok have "parseFieldDescriptors d v mode fv buf hl off acc
                          = parseFieldDescriptors d v mode fv buf hl (off + 32) (acc @ [?f])"
        by (subst parseFieldDescriptors.simps) auto
      with ih show ?thesis by simp
    qed
  qed
qed

lemma definedSizes_names:
  "definedSizes fs = Some sized \<Longrightarrow> map name sized = map name fs"
  by (auto simp: definedSizes_def split: if_splits)

text \<open>
  C5, as amended. In strict mode \<^verbatim>\<open>openDBF\<close> throws when byte 0 is not one of 0x03, 0x83,
  0x8b, 0x30, 0xf5 (the invalid-version error, once the twelve header bytes are there), and
  when a name of the descriptor table repeats an earlier one (the duplicate-name error for
  a name of the table, if the version is valid and the validator accepts the descriptors
  of the table). In loose mode it makes neither check: with the twelve header bytes, a
  decoder for the encoding and the terminator after the table, it returns a handle with
  the version byte and the names of the table, whatever they are.
\<close>

theorem openDBF_strict_checks:
  "(opt_readMode options = Strict \<longrightarrow>
      (\<not> isValidFileVersion (byteAt dat 0) \<longrightarrow>
         isl (openDBF td v dat memo options) \<and>
         (12 \<le> length dat \<longrightarrow> openDBF td v dat memo options = Inl InvalidFileVersion)) \<and>
      (\<forall>decoder hl.
         td (getEncoding (opt_encoding options) None) = Some decoder \<and>
         getInt16 (subarray dat 8 10) True = Inr hl \<and>
         \<not> distinct (map name (tableFields decoder dat hl)) \<longrightarrow>
           isl (openDBF td v dat memo options) \<and>
           (12 \<le> length dat \<and> isValidFileVersion (byteAt dat 0) \<and>
            (\<forall>f\<in>set (tableFields decoder dat hl). v f (byteAt dat 0) = None) \<longrightarrow>
              (\<exists>n\<in>set (map name (tableFields decoder dat hl)).
                 openDBF td v dat memo options = Inl (DuplicateFieldName n))))) \<and>
   (opt_readMode options = Loose \<longrightarrow>
      openDBF td v dat memo options \<noteq> Inl InvalidFileVersion \<and>
      (\<forall>n. openDBF td v dat memo options \<noteq> Inl (DuplicateFieldName n)) \<and>
      (\<forall>decoder hl.
         12 \<le> length dat \<and>
         td (getEncoding (opt_encoding options) None) = Some decoder \<and>
         getInt16 (subarray dat 8 10) True = Inr hl \<and>
         byteAt dat (tableEnd dat hl) = Some 0x0d \<longrightarrow>
           (\<exists>h. openDBF td v dat memo options = Inr h \<and> p_version h = byteAt dat 0 \<and>
                map name (fieldsD h) = map name (tableFields decoder dat hl))))"
proof (intro conjI impI allI)
  assume "opt_readMode options = Strict" "\<not> isValidFileVersion (byteAt dat 0)"
  then show "isl (openDBF td v dat memo options)"
    by (auto simp: openDBF_def Let_def split: sum.splits)
next
  assume s: "opt_readMode options = Strict" "\<not> isValidFileVersion (byteAt dat 0)"
    and len: "12 \<le> length dat"
  obtain rc hl rl where
    "getInt32 (subarray dat 4 8) True = Inr rc" "getInt16 (subarray dat 8 10) True = Inr hl"
    "getInt16 (subarray dat 10 12) True = Inr rl"
    using getInt32_header[OF len] getInt16_header[OF len] by blast
  with s show "openDBF td v dat memo options = Inl InvalidFileVersion"
    by (simp add: openDBF_def Let_def)
next
  fix decoder hl
  assume s: "opt_readMode options = Strict"
    and h: "td (getEncoding (opt_encoding options) None) = Some decoder \<and>
            getInt16 (subarray dat 8 10) True = Inr hl \<and>
            \<not> distinct (map name (tableFields decoder dat hl))"
  have nopar: "parseFieldDescriptors decoder v Strict (byteAt dat 0) dat hl 32 [] \<noteq> Inr (fs, off)"
    for fs off
  proof
    assume p: "parseFieldDescriptors decoder v Strict (byteAt dat 0) dat hl 32 [] = Inr (fs, off)"
    from parse_strict_distinct[OF p] have "distinct (map name fs)" by simp
    with tableFields_eq[OF p] h show False by simp
  qed
  show "isl (openDBF td v dat memo options)"
    using s h nopar by (auto simp: openDBF_def Let_def split: sum.splits option.splits)
  assume ok: "12 \<le> length dat \<and> isValidFileVersion (byteAt dat 0) \<and>
              (\<forall>f\<in>set (tableFields decoder dat hl). v f (byteAt dat 0) = None)"
  obtain rc rl where r:
    "getInt32 (subarray dat 4 8) True = Inr rc" "getInt16 (subarray dat 10 12) True = Inr rl"
    using getInt32_header[of dat] getInt16_header[of dat] ok by blast
  obtain fs off where
    t: "parseFieldDescriptors decoder (\<lambda>field ver. None) Loose None dat hl 32 [] = Inr (fs, off)"
    using parse_loose_total[OF refl] by blast
  from tableFields_eq[OF t] have tf: "tableFields decoder dat hl = fs" .
  from ok tf have acc: "\<forall>f\<in>set fs. v f (byteAt dat 0) = None" by simp
  from parse_strict_cases[where v = v and fv = "byteAt dat 0" and mode = Strict, OF t refl acc]
       nopar
  obtain f where f: "f \<in> set fs"
    and e: "parseFieldDescriptors decoder v Strict (byteAt dat 0) dat hl 32 []
              = Inl (DuplicateFieldName (name f))"
    by blast
  from e r s h ok have "openDBF td v dat memo options = Inl (DuplicateFieldName (name f))"
    by (simp add: openDBF_def Let_def)
  moreover from f tf have "name f \<in> set (map name (tableFields decoder dat hl))" by simp
  ultimately show "\<exists>n\<in>set (map name (tableFields decoder dat hl)).
                     openDBF td v dat memo options = Inl (DuplicateFieldName n)"
    by blast
next
  assume l: "opt_readMode options = Loose"
  show "openDBF td v dat memo options \<noteq> Inl InvalidFileVersion"
    using l parse_loose_not_Inl
    by (auto simp: openDBF_def Let_def split: sum.splits option.splits if_splits
             dest: getInt_errors)
next
  fix n
  assume l: "opt_readMode options = Loose"
  show "openDBF td v dat memo options \<noteq> Inl (DuplicateFieldName n)"
    using l parse_loose_not_Inl
    by (auto simp: openDBF_def Let_def split: sum.splits option.splits if_splits
             dest: getInt_errors)
next
  fix decoder hl
  assume l: "opt_readMode options = Loose"
    and h: "12 \<le> length dat \<and>
            td (getEncoding (opt_encoding options) None) = Some decoder \<and>
            getInt16 (subarray dat 8 10) True = Inr hl \<and>
            byteAt dat (tableEnd dat hl) = Some 0x0d"
  obtain rc rl where r:
    "getInt32 (subarray dat 4 8) True = Inr rc" "getInt16 (subarray dat 10 12) True = Inr rl"
    using getInt32_header[of dat] getInt16_header[of dat] h by blast
  obtain fs off where
    q: "parseFieldDescriptors decoder v Loose (byteAt dat 0) dat hl 32 [] = Inr (fs, off)"
    using parse_loose_total[OF refl] by blast
  from tableFields_eq[OF q] tableEnd_eq[OF q]
  have tf: "tableFields decoder dat hl = fs" and te: "tableEnd dat hl = off" .
  from h te have tm: "byteAt dat off = Some 0x0d" by simp
  then have "byteAt dat off \<noteq> None" by simp
  from parse_sizes_defined[OF q _ this] have "list_all (\<lambda>f. size_f f \<noteq> None) fs" by simp
  then obtain sized where sized: "definedSizes fs = Some sized"
    by (simp add: definedSizes_def)
  from q l h r tm sized
  have "\<exists>h. openDBF td v dat memo options = Inr h \<and> p_version h = byteAt dat 0 \<and>
            fieldsD h = sized"
    by (simp add: openDBF_def Let_def)
  with definedSizes_names[OF sized] tf
  show "\<exists>h. openDBF td v dat memo options = Inr h \<and> p_version h = byteAt dat 0 \<and>
            map name (fieldsD h) = map name (tableFields decoder dat hl)"
    by auto
qed

lemma dup_headerLength: "getInt16 (subarray dupFile 8 10) True = Inr 97"
  by (simp add: eval_simps dupFile_def sampleHeader_def)

lemma dup_names: "map name (tableFields (map ucast) dupFile 97) = [key_NAME, key_NAME]"
  by (simp add: tableFields_def parseFieldDescriptors.simps eval_simps dupFile_def sampleHeader_def
        key_NAME_def)

lemma dup_tableEnd: "byteAt dupFile (tableEnd dupFile 97) = Some 0x0d"
  by (simp add: tableEnd_def parseFieldDescriptors.simps eval_simps dupFile_def sampleHeader_def)

lemma tiny_version: "byteAt (tinyFile ver rl term) 0 = Some ver"
  by (simp add: byteAt_def tinyFile_def)

theorem openDBF_strict_checks_witness:
  "openDBF sampleDecoder rejectUnnamed (tinyFile 0x31 1 0x0d) None strictOptions
     = Inl InvalidFileVersion \<and>
   openDBF sampleDecoder rejectUnnamed dupFile None strictOptions
     = Inl (DuplicateFieldName key_NAME) \<and>
   (\<exists>h. openDBF sampleDecoder rejectUnnamed (tinyFile 0x31 1 0x0d) None looseOptions
          = Inr h \<and> p_version h = Some 0x31) \<and>
   (\<exists>h. openDBF sampleDecoder rejectUnnamed dupFile None looseOptions = Inr h \<and>
        map name (fieldsD h) = [key_NAME, key_NAME])"
proof -
  have v: "\<not> isValidFileVersion (byteAt (tinyFile 0x31 1 0x0d) 0)"
    by (simp add: tiny_version isValidFileVersion_def)
  have len: "12 \<le> length (tinyFile 0x31 1 0x0d)" "12 \<le> length dupFile"
    by (simp_all add: tinyFile_def dupFile_def sampleHeader_def)
  have dv: "isValidFileVersion (byteAt dupFile 0)"
    by (simp add: isValidFileVersion_def byteAt_def dupFile_def sampleHeader_def)
  have dd: "\<not> distinct (map name (tableFields (map ucast) dupFile 97))"
    by (simp add: dup_names)
  have named: "\<forall>f\<in>set (tableFields (map ucast) dupFile 97).
                 rejectUnnamed f (byteAt dupFile 0) = None"
  proof
    fix f assume "f \<in> set (tableFields (map ucast) dupFile 97)"
    then have "name f \<in> set (map name (tableFields (map ucast) dupFile 97))" by simp
    then have "name f = key_NAME" by (simp add: dup_names)
    then show "rejectUnnamed f (byteAt dupFile 0) = None"
      by (simp add: rejectUnnamed_def key_NAME_def)
  qed
  have dec: "sampleDecoder (getEncoding (opt_encoding strictOptions) None) = Some (map ucast)"
            "sampleDecoder (getEncoding (opt_encoding looseOptions) None) = Some (map ucast)"
    by (simp_all add: strictOptions_def looseOptions_def getEncoding_def sampleDecoder_def)
  have m: "opt_readMode strictOptions = Strict" "opt_readMode looseOptions = Loose"
    by (simp_all add: strictOptions_def looseOptions_def)
  have tt: "byteAt (tinyFile 0x31 1 0x0d) (tableEnd (tinyFile 0x31 1 0x0d) 33) = Some 0x0d"
    unfolding tiny_tableEnd by (simp add: byteAt_def tinyFile_def)
  have 1: "openDBF sampleDecoder rejectUnnamed (tinyFile 0x31 1 0x0d) None strictOptions
             = Inl InvalidFileVersion"
    using openDBF_strict_checks[of strictOptions "tinyFile 0x31 1 0x0d" sampleDecoder
            rejectUnnamed None] v len m
    by simp
  have "\<exists>n\<in>set (map name (tableFields (map ucast) dupFile 97)).
          openDBF sampleDecoder rejectUnnamed dupFile None strictOptions
            = Inl (DuplicateFieldName n)"
    using openDBF_strict_checks[of strictOptions dupFile sampleDecoder rejectUnnamed None]
          len dv dd named dec m dup_headerLength
    by blast
  then have 2: "openDBF sampleDecoder rejectUnnamed dupFile None strictOptions
                  = Inl (DuplicateFieldName key_NAME)"
    by (simp add: dup_names)
  have th: "getInt16 (subarray (tinyFile 0x31 1 0x0d) 8 10) True = Inr 33"
    by (rule tiny_headerLength)
  have "\<exists>h. openDBF sampleDecoder rejectUnnamed (tinyFile 0x31 1 0x0d) None looseOptions = Inr h \<and>
            p_version h = byteAt (tinyFile 0x31 1 0x0d) 0 \<and>
            map name (fieldsD h) = map name (tableFields (map ucast) (tinyFile 0x31 1 0x0d) 33)"
    using openDBF_strict_checks[of looseOptions "tinyFile 0x31 1 0x0d" sampleDecoder
            rejectUnnamed None] len dec m th tt
    by blast
  then have 3: "\<exists>h. openDBF sampleDecoder rejectUnnamed (tinyFile 0x31 1 0x0d) None looseOptions
                      = Inr h \<and> p_version h = Some 0x31"
    by (auto simp: tiny_version)
  have "\<exists>h. openDBF sampleDecoder rejectUnnamed dupFile None looseOptions = Inr h \<and>
            p_version h = byteAt dupFile 0 \<and>
            map name (fieldsD h) = map name (tableFields (map ucast) dupFile 97)"
    using openDBF_strict_checks[of looseOptions dupFile sampleDecoder rejectUnnamed None]
          len dec m dup_headerLength dup_tableEnd
    by blast
  then have 4: "\<exists>h. openDBF sampleDecoder rejectUnnamed dupFile None looseOptions = Inr h \<and>
                    map name (fieldsD h) = [key_NAME, key_NAME]"
    by (auto simp: dup_names)
  from 1 2 3 4 show ?thesis by (intro conjI)
qed

text \<open>
  C5 as stated fails in loose mode: a file that starts with 0x31 opens, and so does a file
  with two fields of one name.
\<close>

theorem openDBF_loose_counterexample:
  "\<not> isValidFileVersion (byteAt (tinyFile 0x31 1 0x0d) 0) \<and>
   \<not> isl (openDBF sampleDecoder acceptAll (tinyFile 0x31 1 0x0d) None looseOptions) \<and>
   \<not> distinct (map name (tableFields (map ucast) dupFile 97)) \<and>
   \<not> isl (openDBF sampleDecoder acceptAll dupFile None looseOptions)"
proof -
  have 1: "\<not> isValidFileVersion (byteAt (tinyFile 0x31 1 0x0d) 0)"
    by (simp add: tiny_version isValidFileVersion_def)
  have 2: "\<not> isl (openDBF sampleDecoder acceptAll (tinyFile 0x31 1 0x0d) None looseOptions)"
    by (simp add: openDBF_def eval_simps looseOptions_def parseFieldDescriptors.simps tinyFile_def)
  have 3: "\<not> distinct (map name (tableFields (map ucast) dupFile 97))"
    by (simp add: dup_names)
  have 4: "\<not> isl (openDBF sampleDecoder acceptAll dupFile None looseOptions)"
    by (simp add: openDBF_def eval_simps looseOptions_def parseFieldDescriptors.simps dupFile_def
          sampleHeader_def)
  from 1 2 3 4 show ?thesis by blast
qed

text \<open>
  C6. Let the header state the record length \<open>rl\<close>, and let it differ from 1 + the sum of
  the sizes of the fields of the descriptor table. In strict mode \<^verbatim>\<open>openDBF\<close> throws (the
  record-length error, when the checks before it pass). In loose mode, with the terminator
  in place, it returns a handle whose record length is the computed sum.
\<close>

theorem openDBF_recordLength:
  assumes hl: "getInt16 (subarray dat 8 10) True = Inr hl"
      and rl: "getInt16 (subarray dat 10 12) True = Inr rl"
      and dec: "td (getEncoding (opt_encoding options) None) = Some decoder"
      and sizes: "definedSizes (tableFields decoder dat hl) = Some fs"
      and mismatch: "rl \<noteq> 1 + sum_list (map size_f fs)"
  shows "(opt_readMode options = Strict \<longrightarrow>
            isl (openDBF td v dat memo options) \<and>
            (isValidFileVersion (byteAt dat 0) \<and>
             \<not> isl (parseFieldDescriptors decoder v Strict (byteAt dat 0) dat hl 32 []) \<and>
             byteAt dat (tableEnd dat hl) = Some 0x0d \<longrightarrow>
               openDBF td v dat memo options = Inl InvalidRecordLength)) \<and>
         (opt_readMode options = Loose \<and> byteAt dat (tableEnd dat hl) = Some 0x0d \<longrightarrow>
            (\<exists>h. openDBF td v dat memo options = Inr h \<and> fieldsD h = fs \<and>
                 p_recordLength h = 1 + sum_list (map size_f fs)))"
proof -
  from getInt32_header[OF getInt16_length[OF rl]] obtain rc where
    rc: "getInt32 (subarray dat 4 8) True = Inr rc" by blast
  have par: "fs' = tableFields decoder dat hl \<and> off = tableEnd dat hl"
    if "parseFieldDescriptors decoder v (opt_readMode options) (byteAt dat 0) dat hl 32 []
          = Inr (fs', off)" for fs' off
    using tableFields_eq[OF that] tableEnd_eq[OF that] by simp
  have strict: "isl (openDBF td v dat memo options)" if "opt_readMode options = Strict"
    using that hl rl rc dec sizes mismatch par
    by (auto simp: openDBF_def Let_def calculateRecordLength_sum split: sum.splits option.splits)
  have strict': "openDBF td v dat memo options = Inl InvalidRecordLength"
    if s: "opt_readMode options = Strict" and ok: "isValidFileVersion (byteAt dat 0)"
      and p: "\<not> isl (parseFieldDescriptors decoder v Strict (byteAt dat 0) dat hl 32 [])"
      and t: "byteAt dat (tableEnd dat hl) = Some 0x0d"
  proof -
    from p obtain fs' off where
      q: "parseFieldDescriptors decoder v Strict (byteAt dat 0) dat hl 32 [] = Inr (fs', off)"
      by (cases "parseFieldDescriptors decoder v Strict (byteAt dat 0) dat hl 32 []") auto
    from par[of fs' off] q s have "fs' = tableFields decoder dat hl" "off = tableEnd dat hl"
      by simp_all
    with q s ok t hl rl rc dec sizes mismatch show ?thesis
      by (simp add: openDBF_def Let_def calculateRecordLength_sum)
  qed
  have loose: "\<exists>h. openDBF td v dat memo options = Inr h \<and> fieldsD h = fs \<and>
                 p_recordLength h = 1 + sum_list (map size_f fs)"
    if l: "opt_readMode options = Loose" and t: "byteAt dat (tableEnd dat hl) = Some 0x0d"
  proof -
    from parse_loose_total[OF l] obtain fs' off where
      q: "parseFieldDescriptors decoder v (opt_readMode options) (byteAt dat 0) dat hl 32 []
            = Inr (fs', off)" by blast
    from par[OF q] have "fs' = tableFields decoder dat hl" "off = tableEnd dat hl"
      by simp_all
    with q l t hl rl rc dec sizes show ?thesis
      by (simp add: openDBF_def Let_def calculateRecordLength_sum)
  qed
  from strict strict' loose show ?thesis by blast
qed

lemma badLength_header:
  "getInt16 (subarray badLengthFile 8 10) True = Inr 97"
  "getInt16 (subarray badLengthFile 10 12) True = Inr 99"
  "byteAt badLengthFile 0 = Some 0x83"
  by (simp_all add: eval_simps badLengthFile_def sampleFile_def sampleHeader_def)

lemma badLength_table:
  "parseFieldDescriptors (map ucast) acceptAll mode fv badLengthFile 97 32 [] =
     Inr ([\<lparr> name = key_NAME, type = 0x43, size_f = Some 10, decimalPlaces = Some 0 \<rparr>,
           \<lparr> name = key_NOTE, type = 0x4D, size_f = Some 10, decimalPlaces = Some 0 \<rparr>], 96)"
  by (cases mode)
     (simp_all add: parseFieldDescriptors.simps eval_simps badLengthFile_def sampleFile_def
        sampleHeader_def key_NAME_def key_NOTE_def)

theorem openDBF_recordLength_witness:
  "openDBF sampleDecoder acceptAll badLengthFile None strictOptions = Inl InvalidRecordLength \<and>
   (\<exists>h. openDBF sampleDecoder acceptAll badLengthFile None looseOptions = Inr h \<and>
        fieldsD h = sampleFields \<and> p_recordLength h = 21)"
proof -
  have dec: "sampleDecoder (getEncoding (opt_encoding strictOptions) None) = Some (map ucast)"
            "sampleDecoder (getEncoding (opt_encoding looseOptions) None) = Some (map ucast)"
    by (simp_all add: strictOptions_def looseOptions_def getEncoding_def sampleDecoder_def)
  have sizes: "definedSizes (tableFields (map ucast) badLengthFile 97) = Some sampleFields"
    using tableFields_eq[OF badLength_table]
    by (simp add: definedSizes_def sampleFields_def)
  have mismatch: "99 \<noteq> 1 + sum_list (map size_f sampleFields)"
    by (simp add: sampleFields_def)
  have t: "byteAt badLengthFile (tableEnd badLengthFile 97) = Some 0x0d"
    unfolding tableEnd_eq[OF badLength_table]
    by (simp add: byteAt_def badLengthFile_def sampleFile_def sampleHeader_def)
  have ok: "isValidFileVersion (byteAt badLengthFile 0)"
    by (simp add: badLength_header isValidFileVersion_def)
  have p: "\<not> isl (parseFieldDescriptors (map ucast) acceptAll Strict (byteAt badLengthFile 0)
                    badLengthFile 97 32 [])"
    by (simp add: badLength_table)
  have m: "opt_readMode strictOptions = Strict" "opt_readMode looseOptions = Loose"
    by (simp_all add: strictOptions_def looseOptions_def)
  have s: "1 + sum_list (map size_f sampleFields) = 21"
    by (simp add: sampleFields_def)
  show ?thesis
    using openDBF_recordLength[where dat = badLengthFile and hl = 97 and rl = 99
            and td = sampleDecoder and options = strictOptions and decoder = "map ucast"
            and fs = sampleFields and v = acceptAll and memo = None]
          openDBF_recordLength[where dat = badLengthFile and hl = 97 and rl = 99
            and td = sampleDecoder and options = looseOptions and decoder = "map ucast"
            and fs = sampleFields and v = acceptAll and memo = None]
          badLength_header(1,2) dec sizes mismatch t ok p m s
    by simp
qed


text \<open>A name that starts with no digit is listed after the properties that are there.\<close>

lemma create_named: "arrayIndex k = None \<Longrightarrow> create props k v = props @ [(k, v)]"
  by (induction props) (simp_all add: listedBefore_def)

lemma arrayIndex_named: "\<not> (0x30 \<le> c \<and> c \<le> 0x39) \<Longrightarrow> arrayIndex (c # k) = None"
  by (auto simp: arrayIndex_def Let_def)

lemma assign_named:
  "\<not> (0x30 \<le> c \<and> c \<le> 0x39) \<Longrightarrow> c # k \<notin> fst ` set props \<Longrightarrow>
   assign props (c # k) v = props @ [(c # k, v)]"
  by (simp add: assign_def create_named arrayIndex_named)

section \<open>Reading the sample file\<close>

lemma sel:
  "fieldsD (sampleDBF mode incl memo) = sampleFields"
  "p_version (sampleDBF mode incl memo) = Some 0x83"
  "p_readMode (sampleDBF mode incl memo) = mode"
  "p_encoding (sampleDBF mode incl memo) = Label ''latin1''"
  "p_includeDeletedRecords (sampleDBF mode incl memo) = incl"
  "p_recordLength (sampleDBF mode incl memo) = 21"
  "p_headerLength (sampleDBF mode incl memo) = 97"
  "p_recordsRead (sampleDBF mode incl memo) = 0"
  "recordCount (sampleDBF mode incl memo) = 3"
  "data (sampleDBF mode incl memo) = sampleFile"
  "p_memoData (sampleDBF mode incl memo) = memo"
  by (simp_all add: sampleDBF_def)

lemma sample_window: "window sampleFile 97 63 = Inr sampleRecords"
  by (simp add: window_def sampleFile_def sampleHeader_def sampleRecords_def)

lemma sample_names:
  "decodeField sampleDecoder ((sampleDBF mode incl memo)\<lparr>p_recordsRead := k\<rparr>) mbs mv 97
     sampleRecords 1 (sampleFields ! 0) = Inr (Some (Text [0x41, 0x4C, 0x50, 0x48, 0x41]), 11)"
  "decodeField sampleDecoder ((sampleDBF mode incl memo)\<lparr>p_recordsRead := k\<rparr>) mbs mv 97
     sampleRecords 22 (sampleFields ! 0) = Inr (Some (Text [0x42, 0x45, 0x54, 0x41]), 32)"
  "decodeField sampleDecoder ((sampleDBF mode incl memo)\<lparr>p_recordsRead := k\<rparr>) mbs mv 97
     sampleRecords 43 (sampleFields ! 0) = Inr (Some (Text [0x47, 0x41, 0x4D, 0x4D, 0x41]), 53)"
  by (simp_all add: decodeField_def sel sampleFields_def trimTrailing_num decodeAt_def eval_simps
        sampleRecords_def)

lemma sample_pointers:
  "memoBlockIndex sampleDecoder ((sampleDBF mode incl memo)\<lparr>p_recordsRead := k\<rparr>) 97
     sampleRecords 11 10 ''latin1'' = Inr (Some 1)"
  "memoBlockIndex sampleDecoder ((sampleDBF mode incl memo)\<lparr>p_recordsRead := k\<rparr>) 97
     sampleRecords 32 10 ''latin1'' = Inr (Some 2)"
  "memoBlockIndex sampleDecoder ((sampleDBF mode incl memo)\<lparr>p_recordsRead := k\<rparr>) 97
     sampleRecords 53 10 ''latin1'' = Inr None"
  by (simp_all add: memoBlockIndex_def sel decodeAt_def parseInt_def isWhiteSpace_def
        digitValue_def eval_simps sampleRecords_def)

lemma sample_notes:
  "decodeField sampleDecoder ((sampleDBF mode incl memo)\<lparr>p_recordsRead := k\<rparr>) mbs mv 97
     sampleRecords 11 (sampleFields ! 1)
     = (case readMemo sampleDecoder mode (Some 0x83) mv mbs ''latin1'' 1 of
          Inl e \<Rightarrow> Inl e | Inr v \<Rightarrow> Inr (v, 21))"
  "decodeField sampleDecoder ((sampleDBF mode incl memo)\<lparr>p_recordsRead := k\<rparr>) mbs mv 97
     sampleRecords 32 (sampleFields ! 1)
     = (case readMemo sampleDecoder mode (Some 0x83) mv mbs ''latin1'' 2 of
          Inl e \<Rightarrow> Inl e | Inr v \<Rightarrow> Inr (v, 42))"
  "decodeField sampleDecoder ((sampleDBF mode incl memo)\<lparr>p_recordsRead := k\<rparr>) mbs mv 97
     sampleRecords 53 (sampleFields ! 1) = Inr (Some Null, 63)"
  by (simp_all add: decodeField_def sel sampleFields_def sample_pointers getEncoding_def Let_def
        key_NOTE_def cong: sum.case_cong)

lemma memo_one:
  "readMemo sampleDecoder mode (Some 0x83) (Some sampleMemo) 512 ''latin1'' 1
     = Inr (Some (Text [0x6F, 0x6E, 0x65]))"
  by (simp add: memo_simps sampleMemo_def eval_simps)

lemma memo_two:
  "readMemo sampleDecoder mode (Some 0x83) (Some sampleMemo) 512 ''latin1'' 2
     = Inr (Some (Text ([0x74, 0x0A] @ replicate 16 0x20 @ [0x6F])))"
  by (simp add: memo_simps sampleMemo_def eval_simps)

lemma memo_truncated:
  "readMemo sampleDecoder mode (Some 0x83) (Some (replicate 512 0)) 512 ''latin1'' 1
     = Inl MemoReadPastEnd"
  by (simp add: readMemo_def ensureRange_def)

lemma sample_flags:
  "byteAt sampleRecords 0 = Some 0x20"
  "byteAt sampleRecords 21 = Some 0x2a"
  "byteAt sampleRecords 42 = Some 0x20"
  by (simp_all add: byteAt_def sampleRecords_def)

lemmas record_simps = parseRecord_def sel sampleFields_def setProperty_def key_proto_def
  key_NAME_def key_NOTE_def sample_flags assign_named

lemma sample_record1:
  "parseRecord sampleDecoder ((sampleDBF mode incl memo)\<lparr>p_recordsRead := k\<rparr>) 512
     (Some sampleMemo) 97 sampleRecords 0
   = Inr (Some \<lparr> entries = [(key_NAME, Text [0x41, 0x4C, 0x50, 0x48, 0x41]),
                             (key_NOTE, Text [0x6F, 0x6E, 0x65])], deleted = False \<rparr>, 21)"
  using sample_names(1)
          [where mode = mode and incl = incl and memo = memo and k = k and mbs = 512
             and mv = "Some sampleMemo"]
        sample_notes(1)
          [where mode = mode and incl = incl and memo = memo and k = k and mbs = 512
             and mv = "Some sampleMemo"]
  by (simp add: record_simps memo_one)

lemma sample_record1_truncated:
  "parseRecord sampleDecoder ((sampleDBF mode incl memo)\<lparr>p_recordsRead := k\<rparr>) 512
     (Some (replicate 512 0)) 97 sampleRecords 0 = Inl MemoReadPastEnd"
  using sample_names(1)
          [where mode = mode and incl = incl and memo = memo and k = k and mbs = 512
             and mv = "Some (replicate 512 0)"]
        sample_notes(1)
          [where mode = mode and incl = incl and memo = memo and k = k and mbs = 512
             and mv = "Some (replicate 512 0)"]
  by (simp add: record_simps memo_truncated)

lemma sample_record2_included:
  "parseRecord sampleDecoder ((sampleDBF mode True memo)\<lparr>p_recordsRead := k\<rparr>) 512
     (Some sampleMemo) 97 sampleRecords 21
   = Inr (Some \<lparr> entries = [(key_NAME, Text [0x42, 0x45, 0x54, 0x41]),
                             (key_NOTE, Text ([0x74, 0x0A] @ replicate 16 0x20 @ [0x6F]))],
                 deleted = True \<rparr>, 42)"
  using sample_names(2)
          [where mode = mode and incl = True and memo = memo and k = k and mbs = 512
             and mv = "Some sampleMemo"]
        sample_notes(2)
          [where mode = mode and incl = True and memo = memo and k = k and mbs = 512
             and mv = "Some sampleMemo"]
  by (simp add: record_simps memo_two)

lemma sample_record3:
  "parseRecord sampleDecoder ((sampleDBF mode incl memo)\<lparr>p_recordsRead := k\<rparr>) mbs mv 97
     sampleRecords 42
   = Inr (Some \<lparr> entries = [(key_NAME, Text [0x47, 0x41, 0x4D, 0x4D, 0x41]), (key_NOTE, Null)],
                 deleted = False \<rparr>, 63)"
  using sample_names(3)
          [where mode = mode and incl = incl and memo = memo and k = k and mbs = mbs and mv = mv]
        sample_notes(3)
          [where mode = mode and incl = incl and memo = memo and k = k and mbs = mbs and mv = mv]
  by (simp add: record_simps)


lemma sample_record2_skipped:
  "parseRecord sampleDecoder ((sampleDBF mode False memo)\<lparr>p_recordsRead := k\<rparr>) mbs mv 97
     sampleRecords 21 = Inr (None, 42)"
  by (simp add: parseRecord_def sel sample_flags)

lemma sample_chunk:
  "readChunk sampleDecoder 512 (Some sampleMemo) (sampleDBF mode False memo) 3
     = (Inr [Some record1, None, Some record3], (sampleDBF mode False memo)\<lparr>p_recordsRead := 3\<rparr>)"
  "readChunk sampleDecoder 512 (Some sampleMemo) (sampleDBF mode True memo) 3
     = (Inr [Some record1, Some record2, Some record3],
        (sampleDBF mode True memo)\<lparr>p_recordsRead := 3\<rparr>)"
  "readChunk sampleDecoder 512 (Some (replicate 512 0)) (sampleDBF mode incl memo) 3
     = (Inl MemoReadPastEnd, (sampleDBF mode incl memo)\<lparr>p_recordsRead := 3\<rparr>)"
  by (simp_all add: readChunk_def toIndex_def sel sample_window parseRecords_num sample_record1
        sample_record2_skipped sample_record2_included sample_record3 sample_record1_truncated
        record1_def record2_def record3_def)

lemma sample_blockSize:
  "memoBlockSizeOf (Some 0x83) memo = Inr 512"
  by (simp add: memoBlockSizeOf_def)

lemma sample_scan:
  "scanRecordsFromDBF sampleDecoder (sampleDBF mode False (Some sampleMemo)) 10
     = (Inr [Some record1, None, Some record3],
        (sampleDBF mode False (Some sampleMemo))\<lparr>p_recordsRead := 3\<rparr>)"
  "scanRecordsFromDBF sampleDecoder (sampleDBF mode True (Some sampleMemo)) 10
     = (Inr [Some record1, Some record2, Some record3],
        (sampleDBF mode True (Some sampleMemo))\<lparr>p_recordsRead := 3\<rparr>)"
  "scanRecordsFromDBF sampleDecoder (sampleDBF mode incl (Some (replicate 512 0))) 10
     = (Inl MemoReadPastEnd, (sampleDBF mode incl (Some (replicate 512 0)))\<lparr>p_recordsRead := 3\<rparr>)"
  by (simp_all add: scanRecordsFromDBF_def sel sample_blockSize
        scanLoop.simps[of _ _ _ _ "sampleDBF m i mm" for m i mm]
        scanLoop.simps[of _ _ _ _ "(sampleDBF m i mm)\<lparr>p_recordsRead := 3\<rparr>" for m i mm]
        recordCountToRead_def sample_chunk)

lemma sample_read:
  "readRecordsFromDBF sampleDecoder (sampleDBF mode False (Some sampleMemo)) 10
     = (Inr [record1, record3], (sampleDBF mode False (Some sampleMemo))\<lparr>p_recordsRead := 3\<rparr>)"
  "readRecordsFromDBF sampleDecoder (sampleDBF mode True (Some sampleMemo)) 10
     = (Inr [record1, record2, record3],
        (sampleDBF mode True (Some sampleMemo))\<lparr>p_recordsRead := 3\<rparr>)"
  "readRecordsFromDBF sampleDecoder (sampleDBF mode incl (Some (replicate 512 0))) 10
     = (Inl MemoReadPastEnd, (sampleDBF mode incl (Some (replicate 512 0)))\<lparr>p_recordsRead := 3\<rparr>)"
  by (simp_all add: readRecords_scanRecords sample_scan returned_def)


section \<open>Reading the other sample files\<close>

lemma open_code: "openDBF sampleDecoder acceptAll codeFile None strictOptions = Inr codeDBF"
  by (simp add: openDBF_def eval_simps strictOptions_def codeDBF_def codeField_def
        parseFieldDescriptors.simps codeFile_def key_CODE_def)

lemma open_flag: "openDBF sampleDecoder acceptAll flagFile None looseOptions = Inr flagDBF"
  by (simp add: openDBF_def eval_simps looseOptions_def flagDBF_def flagField_def
        parseFieldDescriptors.simps flagFile_def key_FLAG_def)

lemma code_sel:
  "fieldsD codeDBF = [codeField]"
  "p_version codeDBF = Some 0x03"
  "p_readMode codeDBF = Strict"
  "p_encoding codeDBF = Label ''latin1''"
  "p_includeDeletedRecords codeDBF = False"
  "p_recordLength codeDBF = 2"
  "p_headerLength codeDBF = 65"
  "p_recordsRead codeDBF = 0"
  "recordCount codeDBF = 3"
  "data codeDBF = codeFile"
  "p_memoData codeDBF = None"
  by (simp_all add: codeDBF_def)

lemma flag_sel:
  "fieldsD flagDBF = [flagField]"
  "p_version flagDBF = Some 0x03"
  "p_readMode flagDBF = Loose"
  "p_encoding flagDBF = Label ''latin1''"
  "p_includeDeletedRecords flagDBF = False"
  "p_recordLength flagDBF = 3"
  "p_headerLength flagDBF = 65"
  "p_recordsRead flagDBF = 0"
  "recordCount flagDBF = 2"
  "data flagDBF = flagFile"
  "p_memoData flagDBF = None"
  by (simp_all add: flagDBF_def)

lemma code_window: "window codeFile 65 3 = Inr [0x20, 0x41, 0x20]"
  by (simp add: window_def codeFile_def)

lemma flag_window: "window flagFile 65 6 = Inr [0x20, 0x54, 0x20, 0x2A, 0x46, 0x20]"
  by (simp add: window_def flagFile_def)

lemma code_fields:
  "decodeField sampleDecoder (codeDBF\<lparr>p_recordsRead := k\<rparr>) mbs mv 65 [0x20, 0x41, 0x20] 1
     codeField = Inr (Some (Text [0x41]), 2)"
  "decodeField sampleDecoder (codeDBF\<lparr>p_recordsRead := k\<rparr>) mbs mv 65 [0x20, 0x41, 0x20] 3
     codeField = Inr (Some (Text []), 4)"
  by (simp_all add: decodeField_def code_sel codeField_def trimTrailing_num decodeAt_def
        eval_simps)

lemma flag_fields:
  "decodeField sampleDecoder (flagDBF\<lparr>p_recordsRead := k\<rparr>) mbs mv 65
     [0x20, 0x54, 0x20, 0x2A, 0x46, 0x20] 1 flagField = Inr (Some (Bool True), 2)"
  "decodeField sampleDecoder (flagDBF\<lparr>p_recordsRead := k\<rparr>) mbs mv 65
     [0x20, 0x54, 0x20, 0x2A, 0x46, 0x20] 3 flagField = Inr (Some Null, 4)"
  by (simp_all add: decodeField_def flag_sel flagField_def eval_simps)

lemma code_records:
  "parseRecord sampleDecoder (codeDBF\<lparr>p_recordsRead := k\<rparr>) mbs mv 65 [0x20, 0x41, 0x20] 0
     = Inr (Some \<lparr> entries = [(key_CODE, Text [0x41])], deleted = False \<rparr>, 2)"
  "parseRecord sampleDecoder (codeDBF\<lparr>p_recordsRead := k\<rparr>) mbs mv 65 [0x20, 0x41, 0x20] 2
     = Inr (Some \<lparr> entries = [(key_CODE, Text [])], deleted = False \<rparr>, 4)"
  using code_fields[where k = k and mbs = mbs and mv = mv]
  by (simp_all add: parseRecord_def code_sel byteAt_def setProperty_def key_proto_def
        assign_named codeField_def key_CODE_def)

lemma flag_records:
  "parseRecord sampleDecoder (flagDBF\<lparr>p_recordsRead := k\<rparr>) mbs mv 65
     [0x20, 0x54, 0x20, 0x2A, 0x46, 0x20] 0
     = Inr (Some \<lparr> entries = [(key_FLAG, Bool True)], deleted = False \<rparr>, 2)"
  "parseRecord sampleDecoder (flagDBF\<lparr>p_recordsRead := k\<rparr>) mbs mv 65
     [0x20, 0x54, 0x20, 0x2A, 0x46, 0x20] 2
     = Inr (Some \<lparr> entries = [(key_FLAG, Null)], deleted = False \<rparr>, 4)"
  using flag_fields[where k = k and mbs = mbs and mv = mv]
  by (simp_all add: parseRecord_def flag_sel byteAt_def setProperty_def key_proto_def
        assign_named flagField_def key_FLAG_def)

lemma turns_three_halves: "nat \<lceil>3 / 2 :: rat\<rceil> = 2"
proof -
  have "\<lceil>3 / 2 :: rat\<rceil> = 2" by (rule ceiling_unique) simp_all
  then show ?thesis by simp
qed

lemma code_chunk:
  "readChunk sampleDecoder 0 None codeDBF (3 / 2)
     = (Inr [Some \<lparr> entries = [(key_CODE, Text [0x41])], deleted = False \<rparr>,
             Some \<lparr> entries = [(key_CODE, Text [])], deleted = False \<rparr>],
        codeDBF\<lparr>p_recordsRead := 3 / 2\<rparr>)"
  by (simp add: readChunk_def toIndex_def code_sel code_window turns_three_halves
        parseRecords_num code_records)

lemma flag_chunk:
  "readChunk sampleDecoder 0 None flagDBF 2
     = (Inr [Some \<lparr> entries = [(key_FLAG, Bool True)], deleted = False \<rparr>,
             Some \<lparr> entries = [(key_FLAG, Null)], deleted = False \<rparr>],
        flagDBF\<lparr>p_recordsRead := 2\<rparr>)"
  by (simp add: readChunk_def toIndex_def flag_sel flag_window parseRecords_num flag_records)

lemma code_read:
  "readRecordsFromDBF sampleDecoder codeDBF (3 / 2)
     = (Inr [\<lparr> entries = [(key_CODE, Text [0x41])], deleted = False \<rparr>,
             \<lparr> entries = [(key_CODE, Text [])], deleted = False \<rparr>],
        codeDBF\<lparr>p_recordsRead := 3 / 2\<rparr>)"
  by (simp add: readRecordsFromDBF_def code_sel
        readLoop.simps[of _ _ _ _ codeDBF]
        readLoop.simps[of _ _ _ _ "codeDBF\<lparr>p_recordsRead := 3 / 2\<rparr>"]
        recordCountToRead_def code_chunk)

lemma flag_read:
  "readRecordsFromDBF sampleDecoder flagDBF 10
     = (Inr [\<lparr> entries = [(key_FLAG, Bool True)], deleted = False \<rparr>,
             \<lparr> entries = [(key_FLAG, Null)], deleted = False \<rparr>],
        flagDBF\<lparr>p_recordsRead := 2\<rparr>)"
  by (simp add: readRecordsFromDBF_def flag_sel
        readLoop.simps[of _ _ _ _ flagDBF]
        readLoop.simps[of _ _ _ _ "flagDBF\<lparr>p_recordsRead := 2\<rparr>"]
        recordCountToRead_def flag_chunk)

lemma flag_flags:
  "recordFlag flagDBF 0 = Some 0x20"
  "recordFlag flagDBF 1 = Some 0x2a"
  by (simp_all add: recordFlag_def flag_sel byteAt_def flagFile_def)


section \<open>Claims about reading records\<close>

lemma count_list_index:
  "count_list xs x = length (filter (\<lambda>i. xs ! i = x) [0..<length xs])"
proof (induction xs rule: rev_induct)
  case Nil
  show ?case by simp
next
  case (snoc a xs)
  have "filter (\<lambda>i. (xs @ [a]) ! i = x) [0..<length xs] = filter (\<lambda>i. xs ! i = x) [0..<length xs]"
    by (rule filter_cong) (simp_all add: nth_append)
  with snoc show ?case by simp
qed

lemma skipped_deleted:
  assumes "\<forall>i<length xs. (xs ! i = None) = (recordFlag dbf (int i) = Some 0x2a)"
      and "int (length xs) = recordCount dbf"
  shows "count_list xs None = deletedCount dbf"
proof -
  from assms(2) have n: "nat (recordCount dbf) = length xs" by simp
  have "filter (\<lambda>i. xs ! i = None) [0..<length xs]
        = filter (\<lambda>k. recordFlag dbf (int k) = Some 0x2a) [0..<length xs]"
    using assms(1) by (intro filter_cong) simp_all
  then show ?thesis by (simp add: count_list_index deletedCount_def n)
qed

lemma record_marked: "deleted x = b \<Longrightarrow> \<exists>props. x = \<lparr> entries = props, deleted = b \<rparr>"
  by (cases x) simp

lemma treated_cases:
  "treated incl flag out \<Longrightarrow> flag = Some 0x2a \<Longrightarrow> \<not> incl \<Longrightarrow> out = None"
  "treated incl flag out \<Longrightarrow> flag = Some 0x2a \<Longrightarrow> incl \<Longrightarrow>
   \<exists>props. out = Some \<lparr> entries = props, deleted = True \<rparr>"
  "treated incl flag out \<Longrightarrow> flag \<noteq> Some 0x2a \<Longrightarrow>
   \<exists>props. out = Some \<lparr> entries = props, deleted = False \<rparr>"
proof -
  show "treated incl flag out \<Longrightarrow> flag = Some 0x2a \<Longrightarrow> \<not> incl \<Longrightarrow> out = None"
    by (cases out) (simp_all add: treated_def)
  show "\<exists>props. out = Some \<lparr> entries = props, deleted = True \<rparr>"
    if t: "treated incl flag out" and f: "flag = Some 0x2a" and "incl"
  proof (cases out)
    case None
    with t that(3) show ?thesis by (simp add: treated_def)
  next
    case (Some x)
    with t f have "deleted x = True" by (simp add: treated_def)
    from record_marked[OF this] Some show ?thesis by simp
  qed
  show "\<exists>props. out = Some \<lparr> entries = props, deleted = False \<rparr>"
    if t: "treated incl flag out" and f: "flag \<noteq> Some 0x2a"
  proof (cases out)
    case None
    with t f show ?thesis by (simp add: treated_def)
  next
    case (Some x)
    with t f have "deleted x = False" by (simp add: treated_def)
    from record_marked[OF this] Some show ?thesis by simp
  qed
qed

lemma treated_live: "treated False flag out \<Longrightarrow> (out = None) = (flag = Some 0x2a)"
  by (cases out) (simp_all add: treated_def)

lemma sample_recordFlags:
  "recordFlag (sampleDBF mode incl memo) 0 = Some 0x20"
  "recordFlag (sampleDBF mode incl memo) 1 = Some 0x2a"
  "recordFlag (sampleDBF mode incl memo) 2 = Some 0x20"
  by (simp_all add: recordFlag_def sel byteAt_def sampleFile_def sampleHeader_def
        sampleRecords_def)

lemma sample_ownSize:
  "ownSize (fieldsD (sampleDBF mode incl memo))"
  "p_recordLength (sampleDBF mode incl memo)
     = calculateRecordLengthInBytes (fieldsD (sampleDBF mode incl memo))"
  by (simp_all add: sel ownSize_def sampleFields_def calculateRecordLengthInBytes_def)

lemma sample_deletedCount: "deletedCount (sampleDBF mode incl memo) = 1"
proof -
  have "[0..<nat (recordCount (sampleDBF mode incl memo))] = [0, 1, 2]"
    by (simp add: sel upt_rec)
  then show ?thesis
    by (simp add: deletedCount_def sample_recordFlags)
qed

text \<open>
  C1 as stated fails for a \<open>maxCount\<close> that is no whole number: the loop over a chunk runs
  once for each whole \<open>i < recordCountToRead\<close>. From the file with the three records \<open>A\<close>,
  \<open>B\<close>, \<open>C\<close>, \<^verbatim>\<open>readRecords(1.5)\<close> returns two records, more than \<open>maxCount\<close>, the second one
  read from a chunk of three bytes that ends in the middle of it, and leaves the cursor at
  1.5 after two turns.
\<close>

theorem readRecords_fraction_counterexample:
  "openDBF sampleDecoder acceptAll codeFile None strictOptions = Inr codeDBF
   \<and> readRecordsFromDBF sampleDecoder codeDBF (3 / 2)
       = (Inr [\<lparr> entries = [(key_CODE, Text [0x41])], deleted = False \<rparr>,
               \<lparr> entries = [(key_CODE, Text [])], deleted = False \<rparr>],
          codeDBF\<lparr>p_recordsRead := 3 / 2\<rparr>)"
  by (simp add: open_code code_read)

text \<open>
  C1, as amended. Take a handle opened without deleted records, any calls of
  \<^verbatim>\<open>readRecords\<close> with whole numbers that returned so far (they scanned the raw records
  \<open>before\<close>), and one more such call that returns. The call returns the records it pushed,
  at most \<open>maxCount\<close> of them and none with the deleted mark; the cursor was at the number of
  raw records scanned before and moves by the number the call scans, which is the number
  returned plus the number skipped; if the call returns fewer than \<open>maxCount\<close>, the cursor
  has reached \<open>recordCount\<close>; and once the cursor is at \<open>recordCount\<close>, the records returned by
  all the calls plus the records skipped are \<open>recordCount\<close>. When the fields are of their
  own size and the record length is their sum plus one, the records skipped are the
  records of the file whose first byte is 0x2A: raw record \<open>i\<close> of the call is skipped
  exactly when record \<open>length before + i\<close> of the file has that flag, and at the end the
  records returned plus the flagged records of the file are \<open>recordCount\<close>.
\<close>

theorem readRecords_counts:
  assumes hist: "session td dbf0 before dbf"
      and fresh: "p_recordsRead dbf0 = 0"
      and live: "\<not> p_includeDeletedRecords dbf0"
      and this_call: "scanRecordsFromDBF td dbf (of_int maxCount) = (Inr outs, dbf')"
  shows "readRecordsFromDBF td dbf (of_int maxCount) = (Inr (pushed outs), dbf')
       \<and> int (length (pushed outs)) \<le> max maxCount 0
       \<and> p_recordsRead dbf = of_nat (length before)
       \<and> dbf' = dbf\<lparr>p_recordsRead := p_recordsRead dbf + of_nat (length outs)\<rparr>
       \<and> length outs = length (pushed outs) + count_list outs None
       \<and> (\<forall>r\<in>set (pushed outs). \<not> deleted r)
       \<and> (int (length (pushed outs)) < maxCount \<longrightarrow>
            of_int (recordCount dbf) \<le> p_recordsRead dbf')
       \<and> (p_recordsRead dbf' = of_int (recordCount dbf0) \<longrightarrow>
            int (length (pushed (before @ outs))) + int (count_list (before @ outs) None)
              = recordCount dbf0)
       \<and> (ownSize (fieldsD dbf0)
            \<and> p_recordLength dbf0 = calculateRecordLengthInBytes (fieldsD dbf0) \<longrightarrow>
            (\<forall>i<length outs.
               (outs ! i = None) = (recordFlag dbf0 (int (length before + i)) = Some 0x2a))
            \<and> (p_recordsRead dbf' = of_int (recordCount dbf0) \<longrightarrow>
                 int (length (pushed (before @ outs))) + int (deletedCount dbf0)
                   = recordCount dbf0))"
proof -
  from fresh have fresh': "p_recordsRead dbf0 = of_int 0" by simp
  from session_whole[OF hist fresh']
  have s: "dbf = dbf0\<lparr>p_recordsRead := of_int (int (length before))\<rparr>"
    and sf: "ownSize (fieldsD dbf0)
             \<and> p_recordLength dbf0 = calculateRecordLengthInBytes (fieldsD dbf0) \<longrightarrow>
             (\<forall>i<length before. treated (p_includeDeletedRecords dbf0)
                                    (recordFlag dbf0 (int i)) (before ! i))"
    by simp_all
  from s have cur: "p_recordsRead dbf = of_int (int (length before))" by simp
  note r = scanRecords_whole[OF this_call cur]
  from session.call[OF hist this_call] have hist': "session td dbf0 (before @ outs) dbf'" .
  from session_whole[OF hist' fresh']
  have s': "dbf' = dbf0\<lparr>p_recordsRead := of_int (int (length (before @ outs)))\<rparr>"
    and sf': "ownSize (fieldsD dbf0)
             \<and> p_recordLength dbf0 = calculateRecordLengthInBytes (fieldsD dbf0) \<longrightarrow>
             (\<forall>i<length (before @ outs). treated (p_includeDeletedRecords dbf0)
                                    (recordFlag dbf0 (int i)) ((before @ outs) ! i))"
    by simp_all
  have cur': "p_recordsRead dbf' = of_int (int (length (before @ outs)))"
    using s' by simp
  have same: "recordCount dbf = recordCount dbf0" "fieldsD dbf = fieldsD dbf0"
    "p_recordLength dbf = p_recordLength dbf0"
    "p_includeDeletedRecords dbf = p_includeDeletedRecords dbf0"
    "recordFlag dbf = recordFlag dbf0"
    using s by (simp_all add: fun_eq_iff)
  have 1: "readRecordsFromDBF td dbf (of_int maxCount) = (Inr (pushed outs), dbf')"
    by (simp add: readRecords_scanRecords this_call returned_def)
  have 2: "int (length (pushed outs)) \<le> max maxCount 0" by (rule r(2))
  have 3: "p_recordsRead dbf = of_nat (length before)" using cur by simp
  have 4: "dbf' = dbf\<lparr>p_recordsRead := p_recordsRead dbf + of_nat (length outs)\<rparr>"
    using r(1) cur by simp
  have 5: "length outs = length (pushed outs) + count_list outs None"
    by (rule pushed_count)
  have 6: "\<forall>r\<in>set (pushed outs). \<not> deleted r"
    using r(5) live same(4) by simp
  have 7: "int (length (pushed outs)) < maxCount \<longrightarrow>
           of_int (recordCount dbf) \<le> p_recordsRead dbf'"
  proof
    assume "int (length (pushed outs)) < maxCount"
    with r(3) have "recordCount dbf \<le> int (length before) + int (length outs)" by simp
    then have "(of_int (recordCount dbf) :: rat)
               \<le> of_int (int (length before) + int (length outs))"
      by (simp only: of_int_le_iff)
    then show "of_int (recordCount dbf) \<le> p_recordsRead dbf'"
      using cur' by simp
  qed
  have full: "int (length (before @ outs)) = recordCount dbf0"
    if "p_recordsRead dbf' = of_int (recordCount dbf0)"
  proof -
    from that cur' have "(of_int (int (length (before @ outs))) :: rat) = of_int (recordCount dbf0)"
      by simp
    then show ?thesis by (simp only: of_int_eq_iff)
  qed
  have 8: "p_recordsRead dbf' = of_int (recordCount dbf0) \<longrightarrow>
           int (length (pushed (before @ outs))) + int (count_list (before @ outs) None)
             = recordCount dbf0"
    using full pushed_count[of "before @ outs"] by auto
  have 9: "(\<forall>i<length outs.
               (outs ! i = None) = (recordFlag dbf0 (int (length before + i)) = Some 0x2a))
            \<and> (p_recordsRead dbf' = of_int (recordCount dbf0) \<longrightarrow>
                 int (length (pushed (before @ outs))) + int (deletedCount dbf0)
                   = recordCount dbf0)"
    if al: "ownSize (fieldsD dbf0)
            \<and> p_recordLength dbf0 = calculateRecordLengthInBytes (fieldsD dbf0)"
  proof
    from al sf' live
    have t: "\<forall>i<length (before @ outs).
               ((before @ outs) ! i = None) = (recordFlag dbf0 (int i) = Some 0x2a)"
      using treated_live by simp
    show "\<forall>i<length outs.
            (outs ! i = None) = (recordFlag dbf0 (int (length before + i)) = Some 0x2a)"
    proof (intro allI impI)
      fix i assume "i < length outs"
      then have "length before + i < length (before @ outs)" by simp
      with t have "((before @ outs) ! (length before + i) = None)
                   = (recordFlag dbf0 (int (length before + i)) = Some 0x2a)"
        by blast
      then show "(outs ! i = None) = (recordFlag dbf0 (int (length before + i)) = Some 0x2a)"
        by (simp only: nth_append_length_plus)
    qed
    show "p_recordsRead dbf' = of_int (recordCount dbf0) \<longrightarrow>
          int (length (pushed (before @ outs))) + int (deletedCount dbf0) = recordCount dbf0"
    proof
      assume e: "p_recordsRead dbf' = of_int (recordCount dbf0)"
      from skipped_deleted[OF t full[OF e]]
      have "count_list (before @ outs) None = deletedCount dbf0" .
      with 8 e show "int (length (pushed (before @ outs))) + int (deletedCount dbf0)
                     = recordCount dbf0"
        by simp
    qed
  qed
  from 1 2 3 4 5 6 7 8 9 show ?thesis by (intro conjI impI) blast+
qed

theorem readRecords_counts_witness:
  "readRecordsFromDBF sampleDecoder (sampleDBF Strict False (Some sampleMemo)) 10
     = (Inr [record1, record3], (sampleDBF Strict False (Some sampleMemo))\<lparr>p_recordsRead := 3\<rparr>)
   \<and> length [Some record1, None, Some record3]
       = length [record1, record3] + count_list [Some record1, None, Some record3] None
   \<and> int (length [record1, record3]) + int (count_list [Some record1, None, Some record3] None)
       = recordCount (sampleDBF Strict False (Some sampleMemo))
   \<and> recordFlag (sampleDBF Strict False (Some sampleMemo)) 1 = Some 0x2a
   \<and> [Some record1, None, Some record3] ! 1 = None
   \<and> int (length [record1, record3]) + int (deletedCount (sampleDBF Strict False (Some sampleMemo)))
       = recordCount (sampleDBF Strict False (Some sampleMemo))"
proof -
  have fresh: "p_recordsRead (sampleDBF Strict False (Some sampleMemo)) = 0"
    and live: "\<not> p_includeDeletedRecords (sampleDBF Strict False (Some sampleMemo))"
    by (simp_all add: sel)
  have this_call:
    "scanRecordsFromDBF sampleDecoder (sampleDBF Strict False (Some sampleMemo)) (of_int 10)
       = (Inr [Some record1, None, Some record3],
          (sampleDBF Strict False (Some sampleMemo))\<lparr>p_recordsRead := 3\<rparr>)"
    by (simp add: sample_scan)
  show ?thesis
    using readRecords_counts[OF opened fresh live this_call]
    by (simp add: sel sample_ownSize sample_recordFlags sample_deletedCount)
qed

text \<open>
  C8 as stated fails for a file whose fields are not of their own size. The loop moves
  the offset by 1 over a field of type L whatever its size is, so in the file with the
  field FLAG, L(2), opened in loose mode, the second record is read one byte early: its
  first byte is 0x2A and \<^verbatim>\<open>readRecords(10)\<close> returns it, without the deleted mark, though
  deleted records are not included.
\<close>

theorem deleted_record_counterexample:
  "openDBF sampleDecoder acceptAll flagFile None looseOptions = Inr flagDBF
   \<and> \<not> p_includeDeletedRecords flagDBF
   \<and> recordFlag flagDBF 1 = Some 0x2a
   \<and> readRecordsFromDBF sampleDecoder flagDBF 10
       = (Inr [\<lparr> entries = [(key_FLAG, Bool True)], deleted = False \<rparr>,
               \<lparr> entries = [(key_FLAG, Null)], deleted = False \<rparr>],
          flagDBF\<lparr>p_recordsRead := 2\<rparr>)"
  by (simp add: open_flag flag_sel flag_flags flag_read)

text \<open>
  C8, as amended. Let the fields be of their own size and the record length their sum
  plus one, and take a call of \<^verbatim>\<open>readRecords\<close> with a whole number, from a cursor at a
  whole number \<open>c\<close>, that returns. It returns the records that the scan pushed, in their
  order, and moves the cursor by the number of raw records scanned. Raw record \<open>i\<close> of the
  call is record \<open>c + i\<close> of the file: if its first byte is 0x2A, it is skipped when deleted
  records are not included, and pushed with the deleted mark when they are; if not, it is
  pushed without the mark. A turn of the loop that skips a record decodes no field: it
  gives no record and the offset moved by \<^verbatim>\<open>recordLength\<close>, whatever the fields and the
  bytes of the record are.
\<close>

theorem deleted_record:
  assumes own: "ownSize (fieldsD dbf)"
      and rl: "p_recordLength dbf = calculateRecordLengthInBytes (fieldsD dbf)"
      and cur: "p_recordsRead dbf = of_int c"
      and this_call: "scanRecordsFromDBF td dbf (of_int maxCount) = (Inr outs, dbf')"
      and i: "i < length outs"
  shows "readRecordsFromDBF td dbf (of_int maxCount) = (Inr (pushed outs), dbf')
       \<and> dbf' = dbf\<lparr>p_recordsRead := of_int (c + int (length outs))\<rparr>
       \<and> (recordFlag dbf (c + int i) = Some 0x2a \<longrightarrow>
            (\<not> p_includeDeletedRecords dbf \<longrightarrow> outs ! i = None) \<and>
            (p_includeDeletedRecords dbf \<longrightarrow>
               (\<exists>props. outs ! i = Some \<lparr> entries = props, deleted = True \<rparr>)))
       \<and> (recordFlag dbf (c + int i) \<noteq> Some 0x2a \<longrightarrow>
            (\<exists>props. outs ! i = Some \<lparr> entries = props, deleted = False \<rparr>))
       \<and> (\<not> p_includeDeletedRecords dbf \<longrightarrow>
            (\<forall>mbs mv byteOffset buffer offset.
               byteAt buffer offset = Some 0x2a \<longrightarrow>
               parseRecord td dbf mbs mv byteOffset buffer offset
                 = Inr (None, offset + p_recordLength dbf)))"
proof -
  note r = scanRecords_whole[OF this_call cur]
  from r(4) own rl i
  have t: "treated (p_includeDeletedRecords dbf) (recordFlag dbf (c + int i)) (outs ! i)"
    by blast
  have 1: "readRecordsFromDBF td dbf (of_int maxCount) = (Inr (pushed outs), dbf')"
    by (simp add: readRecords_scanRecords this_call returned_def)
  have 5: "parseRecord td dbf mbs mv byteOffset buffer offset
             = Inr (None, offset + p_recordLength dbf)"
    if "\<not> p_includeDeletedRecords dbf" "byteAt buffer offset = Some 0x2a"
    for mbs mv byteOffset buffer offset
    using that by (simp add: parseRecord_def)
  from 1 r(1) treated_cases[OF t] 5 show ?thesis by blast
qed

theorem deleted_record_witness:
  "parseRecord sampleDecoder (sampleDBF Strict False (Some sampleMemo)) 512 (Some sampleMemo) 97
     sampleRecords 21 = Inr (None, 42)
   \<and> openDBF sampleDecoder acceptAll sampleFile (Some sampleMemo) strictOptions
       = Inr (sampleDBF Strict False (Some sampleMemo))
   \<and> recordFlag (sampleDBF Strict False (Some sampleMemo)) 1 = Some 0x2a
   \<and> readRecordsFromDBF sampleDecoder (sampleDBF Strict False (Some sampleMemo)) 10
       = (Inr [record1, record3], (sampleDBF Strict False (Some sampleMemo))\<lparr>p_recordsRead := 3\<rparr>)
   \<and> openDBF sampleDecoder acceptAll sampleFile (Some sampleMemo)
         (strictOptions\<lparr>opt_includeDeletedRecords := True\<rparr>)
       = Inr (sampleDBF Strict True (Some sampleMemo))
   \<and> readRecordsFromDBF sampleDecoder (sampleDBF Strict True (Some sampleMemo)) 10
       = (Inr [record1, record2, record3],
          (sampleDBF Strict True (Some sampleMemo))\<lparr>p_recordsRead := 3\<rparr>)
   \<and> deleted record2 \<and> \<not> deleted record1 \<and> \<not> deleted record3"
proof -
  have cur: "p_recordsRead (sampleDBF Strict incl (Some sampleMemo)) = of_int 0" for incl
    by (simp add: sel)
  have call0:
    "scanRecordsFromDBF sampleDecoder (sampleDBF Strict False (Some sampleMemo)) (of_int 10)
       = (Inr [Some record1, None, Some record3],
          (sampleDBF Strict False (Some sampleMemo))\<lparr>p_recordsRead := 3\<rparr>)"
    by (simp add: sample_scan)
  have call1:
    "scanRecordsFromDBF sampleDecoder (sampleDBF Strict True (Some sampleMemo)) (of_int 10)
       = (Inr [Some record1, Some record2, Some record3],
          (sampleDBF Strict True (Some sampleMemo))\<lparr>p_recordsRead := 3\<rparr>)"
    by (simp add: sample_scan)
  have i: "1 < length [Some record1, None, Some record3]"
          "1 < length [Some record1, Some record2, Some record3]"
    by simp_all
  have fl: "recordFlag (sampleDBF Strict incl (Some sampleMemo)) (0 + int 1) = Some 0x2a" for incl
    by (simp add: sample_recordFlags)
  have byte: "byteAt sampleRecords 21 = Some 0x2a" by (rule sample_flags)
  note a = deleted_record[OF sample_ownSize cur call0 i(1)]
  note b = deleted_record[OF sample_ownSize cur call1 i(2)]
  from a fl[of False] byte
  have 1: "parseRecord sampleDecoder (sampleDBF Strict False (Some sampleMemo)) 512
             (Some sampleMemo) 97 sampleRecords 21 = Inr (None, 42)"
    by (simp add: sel)
  from a have 2: "readRecordsFromDBF sampleDecoder (sampleDBF Strict False (Some sampleMemo)) 10
       = (Inr [record1, record3], (sampleDBF Strict False (Some sampleMemo))\<lparr>p_recordsRead := 3\<rparr>)"
    by simp
  from b have 3: "readRecordsFromDBF sampleDecoder (sampleDBF Strict True (Some sampleMemo)) 10
       = (Inr [record1, record2, record3],
          (sampleDBF Strict True (Some sampleMemo))\<lparr>p_recordsRead := 3\<rparr>)"
    by simp
  from b fl[of True]
  have "\<exists>props. [Some record1, Some record2, Some record3] ! 1
                  = Some \<lparr> entries = props, deleted = True \<rparr>"
    by (simp add: sel)
  then obtain props where "record2 = \<lparr> entries = props, deleted = True \<rparr>" by auto
  then have "deleted record2 = deleted \<lparr> entries = props, deleted = True \<rparr>" by simp
  then have 4: "deleted record2" by simp
  show ?thesis
    using 1 2 3 4
    by (simp add: open_sample strictOptions_def sample_recordFlags record1_def record3_def)
qed

text \<open>
  C2 fails on the code in loose mode. The sample file is read in loose mode with a memo file
  that ends after its first 512 bytes; record 1 points to block 1, outside the memo
  buffer. The call throws the read-past-end error, where the claim has an empty string.
\<close>

theorem memo_out_of_range_loose:
  "readRecordsFromDBF sampleDecoder (sampleDBF Loose False (Some (replicate 512 0))) 10
     = (Inl MemoReadPastEnd, (sampleDBF Loose False (Some (replicate 512 0)))\<lparr>p_recordsRead := 3\<rparr>)"
  by (rule sample_read(3))

text \<open>
  The range check knows no read mode: a block that starts outside the memo buffer is an
  error in both modes. Only the missing memo buffer is an error in strict mode alone.
\<close>

lemma readMemo_out_of_range:
  "0 < mbs \<Longrightarrow> blockIndex * mbs < 0 \<or> int (length mv) \<le> blockIndex * mbs \<Longrightarrow>
   readMemo td mode ver (Some mv) mbs enc blockIndex = Inl MemoReadPastEnd"
  by (auto simp: readMemo_def ensureRange_def Let_def)

lemma readMemo_no_buffer:
  "readMemo td Strict ver None mbs enc blockIndex = Inl MemoReadPastEnd"
  "readMemo td Loose ver None mbs enc blockIndex = Inr None"
  by (simp_all add: readMemo_def)

text \<open>
  C4 fails on the code. Block 2 of the sample memo file holds the bytes 74 0A 6F and the
  terminator: \<open>t\<close>, a line feed, \<open>o\<close>. The value read has sixteen spaces after the line feed.
\<close>

theorem memo_83_indented:
  "subarray sampleMemo 1024 1028 = [0x74, 0x0A, 0x6F, 0x1A]
   \<and> readMemo sampleDecoder Strict (Some 0x83) (Some sampleMemo) 512 ''latin1'' 2
       = Inr (Some (Text ([0x74, 0x0A] @ replicate 16 0x20 @ [0x6F])))
   \<and> fst (readRecordsFromDBF sampleDecoder (sampleDBF Strict True (Some sampleMemo)) 10)
       = Inr [record1, record2, record3]
   \<and> map_of (entries record2) key_NOTE = Some (Text ([0x74, 0x0A] @ replicate 16 0x20 @ [0x6F]))"
proof -
  have "subarray sampleMemo 1024 1028 = [0x74, 0x0A, 0x6F, 0x1A]"
    by (simp add: subarray_def relIndex_def sampleMemo_def)
  then show ?thesis
    by (simp add: memo_two sample_read record2_def key_NAME_def key_NOTE_def)
qed

text \<open>What the code does for version 0x83, in general.\<close>

lemma readMemo_83:
  assumes "0 < mbs" "0 \<le> blockIndex * mbs" "blockIndex * mbs < int (length mv)"
      and "td enc = Some decoder"
  shows "readMemo td mode (Some 0x83) (Some mv) mbs enc blockIndex =
           Inr (Some (Text (indentNewlines (replaceCRLF (decoder
             (takeWhile (\<lambda>b. b \<noteq> 0x1a) (drop (nat (blockIndex * mbs)) mv)))))))"
proof -
  let ?o = "blockIndex * mbs"
  let ?rest = "drop (nat ?o) mv"
  have "subarray mv ?o (if indexOfFrom mv 0x1a ?o = - 1 then int (length mv)
                        else indexOfFrom mv 0x1a ?o) = takeWhile (\<lambda>b. b \<noteq> 0x1a) ?rest"
  proof (cases "0x1a \<in> set ?rest")
    case True
    have "length (takeWhile (\<lambda>b. b \<noteq> 0x1a) ?rest) \<le> length ?rest"
      by (rule length_takeWhile_le)
    then have le: "int (length (takeWhile (\<lambda>b. b \<noteq> 0x1a) ?rest)) + ?o \<le> int (length mv)"
      using assms by simp
    have "take (length (takeWhile (\<lambda>b. b \<noteq> 0x1a) ?rest)) ?rest = takeWhile (\<lambda>b. b \<noteq> 0x1a) ?rest"
      by (metis takeWhile_eq_take)
    with True le assms show ?thesis
      by (simp add: indexOfFrom_def subarray_def relIndex_def Let_def min_def)
  next
    case False
    then have h: "takeWhile (\<lambda>b. b \<noteq> 0x1a) ?rest = ?rest"
      by (auto simp: takeWhile_eq_all_conv)
    from False assms show ?thesis
      by (simp add: indexOfFrom_def subarray_def relIndex_def Let_def h)
  qed
  with assms show ?thesis
    by (simp add: readMemo_def ensureRange_def decodeBytes_def Let_def)
qed

section \<open>Claims about memo files\<close>

text \<open>
  C3 as stated fails on the code, which reads the block size big-endian: the sample
  Visual FoxPro memo file has 00 08 at offset 6, and its block size is 8, not 2048.
\<close>

theorem memoBlockSize_counterexample:
  "memoBlockSizeOf (Some 0x30) vfpMemo = Inr 8 \<and> uintLE (subarray vfpMemo 6 8) = 2048"
  by (simp add: memoBlockSizeOf_def eval_simps vfpMemo_def)

text \<open>
  C3, as amended. The block size depends on the version and the memo buffer alone. With a
  memo buffer of at least 8 bytes: for versions 0x30 and 0xf5 it is the big-endian uint16 at
  offset 6, or 512 if that is zero; for version 0x8b it is 512 when the four bytes at offset
  4 are zero. For version 0x83 it is always 512.
\<close>

theorem memoBlockSize_by_version:
  "(8 \<le> length memo \<and> (ver = Some 0x30 \<or> ver = Some 0xf5) \<longrightarrow>
      memoBlockSizeOf ver memo =
        Inr (if uint (memo ! 6) * 256 + uint (memo ! 7) = 0 then 512
             else uint (memo ! 6) * 256 + uint (memo ! 7))) \<and>
   (8 \<le> length memo \<and> ver = Some 0x8b \<and> take 4 (drop 4 memo) = [0, 0, 0, 0] \<longrightarrow>
      memoBlockSizeOf ver memo = Inr 512) \<and>
   (ver = Some 0x83 \<longrightarrow> memoBlockSizeOf ver memo = Inr 512)"
proof -
  have two: "take 2 (drop 6 memo) = [memo ! 6, memo ! 7]" if "8 \<le> length memo"
  proof (rule nth_equalityI)
    show "length (take 2 (drop 6 memo)) = length [memo ! 6, memo ! 7]"
      using that by simp
    fix i
    assume "i < length (take 2 (drop 6 memo))"
    then have "i = 0 \<or> i = 1" by auto
    then show "take 2 (drop 6 memo) ! i = [memo ! 6, memo ! 7] ! i"
      using that by auto
  qed
  have a: "memoBlockSizeOf ver memo =
             Inr (if uint (memo ! 6) * 256 + uint (memo ! 7) = 0 then 512
                  else uint (memo ! 6) * 256 + uint (memo ! 7))"
    if "8 \<le> length memo" "ver = Some 0x30 \<or> ver = Some 0xf5"
    using that two
    by (auto simp: memoBlockSizeOf_def getUint16_def getUint_def subarray_def relIndex_def
          uintBE_def Let_def)
  have b: "memoBlockSizeOf ver memo = Inr 512"
    if "8 \<le> length memo" "ver = Some 0x8b" "take 4 (drop 4 memo) = [0, 0, 0, 0]"
    using that
    by (simp add: memoBlockSizeOf_def getInt32_def getUint_def subarray_def relIndex_def
          uintBE_def toSigned_def Let_def)
  have c: "memoBlockSizeOf ver memo = Inr 512" if "ver = Some 0x83"
    using that by (simp add: memoBlockSizeOf_def)
  from a b c show ?thesis by blast
qed

theorem memoBlockSize_by_version_witness:
  "memoBlockSizeOf (Some 0x30) vfpMemo = Inr 8 \<and>
   memoBlockSizeOf (Some 0xf5) (replicate 8 0) = Inr 512 \<and>
   memoBlockSizeOf (Some 0x8b) (replicate 8 0) = Inr 512 \<and>
   memoBlockSizeOf (Some 0x83) sampleMemo = Inr 512"
proof -
  have l: "8 \<le> length vfpMemo" "8 \<le> length (replicate 8 (0 :: byte))"
    by (simp_all add: vfpMemo_def)
  have z: "take 4 (drop 4 (replicate 8 (0 :: byte))) = [0, 0, 0, 0]"
    by (simp add: numeral_eq_Suc)
  have v: "vfpMemo ! 6 = 0" "vfpMemo ! 7 = 8"
    by (simp_all add: vfpMemo_def)
  show ?thesis
    using memoBlockSize_by_version[of vfpMemo "Some 0x30"]
          memoBlockSize_by_version[of "replicate 8 0" "Some 0xf5"]
          memoBlockSize_by_version[of "replicate 8 0" "Some 0x8b"]
          memoBlockSize_by_version[of sampleMemo "Some 0x83"]
          l z v
    by simp
qed

text \<open>
  C9. A memo field of a version 0x30 (or 0xf5) file whose block index is a number other
  than 0: when the four bytes of the type tag at the start of the block lie in the memo
  buffer and the tag, read big-endian, is not 1, the value is the empty string, in both
  read modes, and nothing is thrown.
\<close>

theorem vfp_memo_not_text:
  assumes m: "type field = 0x4D"
      and ver: "p_version dbf = Some 0x30 \<or> p_version dbf = Some 0xf5"
      and ptr: "memoBlockIndex td dbf byteOffset buffer offset (size_f field)
                  (getEncoding (p_encoding dbf) (Some (name field))) = Inr (Some blockIndex)"
      and nz: "blockIndex \<noteq> 0"
      and bs: "memoBlockSizeOf (p_version dbf) memo = Inr memoBlockSize"
      and lo: "0 \<le> blockIndex * memoBlockSize"
      and hi: "blockIndex * memoBlockSize + 4 \<le> int (length memo)"
      and tag: "toSigned 32 (uintBE (take 4 (drop (nat (blockIndex * memoBlockSize)) memo))) \<noteq> 1"
  shows "decodeField td dbf memoBlockSize (Some memo) byteOffset buffer offset field
           = Inr (Some (Text []), offset + size_f field)"
proof -
  have pos: "0 < memoBlockSize"
  proof -
    from ver bs obtain n where n: "getUint16 (subarray memo 6 8) False = Inr n"
      and eq: "memoBlockSize = (if n = 0 then 512 else n)"
      by (auto simp: memoBlockSizeOf_def split: sum.splits)
    have "0 \<le> foldl (\<lambda>acc b. acc * 256 + uint b) a bs" if "0 \<le> a" for a and bs :: "byte list"
      using that by (induction bs arbitrary: a) simp_all
    with n have "0 \<le> n"
      by (auto simp: getUint16_def getUint_def uintBE_def split: if_splits)
    with eq show ?thesis by (auto split: if_splits)
  qed
  have rd: "readInt32 memo (blockIndex * memoBlockSize) False
              = Inr (toSigned 32 (uintBE (take 4 (drop (nat (blockIndex * memoBlockSize)) memo))))"
    using lo hi
    by (simp add: readInt32_def ensureRange_def window_def getInt32_def getUint_def)
  have ne: "(0x4D :: 16 word) \<noteq> 0x43" "(0x4D :: 16 word) \<noteq> 0x4E" "(0x4D :: 16 word) \<noteq> 0x46"
    "(0x4D :: 16 word) \<noteq> 0x4C" "(0x4D :: 16 word) \<noteq> 0x54" "(0x4D :: 16 word) \<noteq> 0x44"
    "(0x4D :: 16 word) \<noteq> 0x42" "(0x4D :: 16 word) \<noteq> 0x49"
    by simp_all
  have mem: "readMemo td (p_readMode dbf) (p_version dbf) (Some memo) memoBlockSize
               (getEncoding (p_encoding dbf) (Some (name field))) blockIndex
             = Inr (Some (Text []))"
    using ver pos lo hi rd tag
    by (auto simp: readMemo_def ensureRange_def Let_def)
  show ?thesis
    using m ptr nz mem ne by (simp add: decodeField_def Let_def)
qed

lemma vfp_sel:
  "p_version (vfpDBF mode memo) = Some 0x30"
  "p_encoding (vfpDBF mode memo) = Label ''latin1''"
  "p_readMode (vfpDBF mode memo) = mode"
  "data (vfpDBF mode memo) = vfpFile"
  "p_memoData (vfpDBF mode memo) = memo"
  "recordCount (vfpDBF mode memo) = 1"
  "p_recordsRead (vfpDBF mode memo) = 0"
  by (simp_all add: vfpDBF_def)

lemma vfp_pointer:
  "memoBlockIndex sampleDecoder (vfpDBF mode memo) 65 [0x20, 1, 0, 0, 0] 1 4 ''latin1''
     = Inr (Some 1)"
  by (simp add: memoBlockIndex_def vfp_sel eval_simps vfpFile_def)

theorem vfp_memo_not_text_witness:
  "decodeField sampleDecoder (vfpDBF Strict (Some vfpMemo)) 8 (Some vfpMemo) 65
     [0x20, 1, 0, 0, 0] 1 vfpField = Inr (Some (Text []), 5)
   \<and> decodeField sampleDecoder (vfpDBF Loose (Some vfpMemo)) 8 (Some vfpMemo) 65
     [0x20, 1, 0, 0, 0] 1 vfpField = Inr (Some (Text []), 5)"
proof -
  have m: "type vfpField = 0x4D" "size_f vfpField = 4" "name vfpField = key_NOTE"
    by (simp_all add: vfpField_def)
  have bs: "memoBlockSizeOf (p_version (vfpDBF mode (Some vfpMemo))) vfpMemo = Inr 8" for mode
    by (simp add: vfp_sel memoBlockSizeOf_def eval_simps vfpMemo_def)
  have ptr: "memoBlockIndex sampleDecoder (vfpDBF mode (Some vfpMemo)) 65 [0x20, 1, 0, 0, 0] 1
               (size_f vfpField)
               (getEncoding (p_encoding (vfpDBF mode (Some vfpMemo))) (Some (name vfpField)))
             = Inr (Some 1)" for mode
    by (simp add: m vfp_sel getEncoding_def vfp_pointer)
  have hi: "1 * 8 + 4 \<le> int (length vfpMemo)"
    by (simp add: vfpMemo_def)
  have tag: "toSigned 32 (uintBE (take 4 (drop (nat (1 * 8)) vfpMemo))) \<noteq> 1"
    by (simp add: toSigned_def uintBE_def vfpMemo_def)
  have ver: "p_version (vfpDBF mode (Some vfpMemo)) = Some 0x30
             \<or> p_version (vfpDBF mode (Some vfpMemo)) = Some 0xf5" for mode
    by (simp add: vfp_sel)
  show ?thesis
    using vfp_memo_not_text[OF m(1) ver ptr _ bs _ hi tag, of Strict]
          vfp_memo_not_text[OF m(1) ver ptr _ bs _ hi tag, of Loose]
    by (simp add: m)
qed

section \<open>Claims about the frame of a call\<close>

text \<open>
  C10 as stated fails on the code, which computes the memo block size before the loop: the
  sample Visual FoxPro file opened with an empty memo buffer throws a RangeError at
  \<^verbatim>\<open>readRecords(0)\<close>.
\<close>

theorem readRecords_zero_counterexample:
  "openDBF sampleDecoder acceptAll vfpFile (Some []) strictOptions = Inr (vfpDBF Strict (Some []))
   \<and> fst (readRecordsFromDBF sampleDecoder (vfpDBF Strict (Some [])) 0) = Inl RangeError"
  by (simp add: open_vfp strictOptions_def readRecordsFromDBF_def vfp_sel memoBlockSizeOf_def
        eval_simps)

text \<open>
  C10, as amended. A call with \<open>maxCount \<le> 0\<close> leaves the handle as it is and scans no
  record. It returns the empty list unless the file has a memo buffer of less than 8 bytes
  and version 0x30, 0xf5 or 0x8b; then it throws a RangeError.
\<close>

theorem readRecords_nonpositive:
  assumes "maxCount \<le> 0"
  shows "snd (readRecordsFromDBF td dbf maxCount) = dbf
       \<and> (\<forall>outs. fst (scanRecordsFromDBF td dbf maxCount) = Inr outs \<longrightarrow> outs = [])
       \<and> ((\<exists>memo. p_memoData dbf = Some memo \<and> length memo < 8) \<and>
           (p_version dbf = Some 0x30 \<or> p_version dbf = Some 0xf5 \<or> p_version dbf = Some 0x8b)
           \<longrightarrow> fst (readRecordsFromDBF td dbf maxCount) = Inl RangeError)
       \<and> (\<not> ((\<exists>memo. p_memoData dbf = Some memo \<and> length memo < 8) \<and>
           (p_version dbf = Some 0x30 \<or> p_version dbf = Some 0xf5 \<or> p_version dbf = Some 0x8b))
           \<longrightarrow> fst (readRecordsFromDBF td dbf maxCount) = Inr [])"
proof -
  have rl: "readLoop td maxCount mbs mv dbf [] = (Inr [], dbf)" for mbs mv
    using assms by (simp add: readLoop.simps[of td maxCount mbs mv dbf "[]"])
  have sl: "scanLoop td maxCount mbs mv dbf [] = (Inr [], dbf)" for mbs mv
    using assms by (simp add: scanLoop.simps[of td maxCount mbs mv dbf "[]"])
  have short: "memoBlockSizeOf ver memo = Inl RangeError"
    if "length memo < 8" "ver = Some 0x30 \<or> ver = Some 0xf5 \<or> ver = Some 0x8b" for ver memo
    using that
    by (auto simp: memoBlockSizeOf_def getUint16_def getInt32_def getUint_def subarray_def
          relIndex_def Let_def)
  have long: "\<exists>n. memoBlockSizeOf ver memo = Inr n"
    if "\<not> (length memo < 8 \<and> (ver = Some 0x30 \<or> ver = Some 0xf5 \<or> ver = Some 0x8b))"
    for ver memo
    using that
    by (auto simp: memoBlockSizeOf_def getUint16_def getInt32_def getUint_def subarray_def
          relIndex_def Let_def)
  have 1: "snd (readRecordsFromDBF td dbf maxCount) = dbf"
    by (simp add: readRecordsFromDBF_def rl split: option.splits sum.splits)
  have 2: "outs = []" if "fst (scanRecordsFromDBF td dbf maxCount) = Inr outs" for outs
    using that by (auto simp: scanRecordsFromDBF_def sl split: option.splits sum.splits)
  have 3: "fst (readRecordsFromDBF td dbf maxCount) = Inl RangeError"
    if "\<exists>memo. p_memoData dbf = Some memo \<and> length memo < 8"
       "p_version dbf = Some 0x30 \<or> p_version dbf = Some 0xf5 \<or> p_version dbf = Some 0x8b"
    using that short by (auto simp: readRecordsFromDBF_def)
  have 4: "fst (readRecordsFromDBF td dbf maxCount) = Inr []"
    if n: "\<not> ((\<exists>memo. p_memoData dbf = Some memo \<and> length memo < 8) \<and>
           (p_version dbf = Some 0x30 \<or> p_version dbf = Some 0xf5 \<or> p_version dbf = Some 0x8b))"
  proof (cases "p_memoData dbf")
    case None
    then show ?thesis by (simp add: readRecordsFromDBF_def rl)
  next
    case (Some memo)
    with n long[of memo "p_version dbf"] obtain k where
      "memoBlockSizeOf (p_version dbf) memo = Inr k" by auto
    with Some show ?thesis by (simp add: readRecordsFromDBF_def rl)
  qed
  from 1 2 3 4 show ?thesis by blast
qed

theorem readRecords_nonpositive_witness:
  "readRecordsFromDBF sampleDecoder (sampleDBF Strict False (Some sampleMemo)) 0
     = (Inr [], sampleDBF Strict False (Some sampleMemo))
   \<and> readRecordsFromDBF sampleDecoder (sampleDBF Strict False None) (- 5)
     = (Inr [], sampleDBF Strict False None)
   \<and> readRecordsFromDBF sampleDecoder (vfpDBF Strict (Some [])) 0
     = (Inl RangeError, vfpDBF Strict (Some []))"
proof -
  have a: "\<not> ((\<exists>memo. p_memoData (sampleDBF Strict False (Some sampleMemo)) = Some memo
                    \<and> length memo < 8) \<and>
              (p_version (sampleDBF Strict False (Some sampleMemo)) = Some 0x30
               \<or> p_version (sampleDBF Strict False (Some sampleMemo)) = Some 0xf5
               \<or> p_version (sampleDBF Strict False (Some sampleMemo)) = Some 0x8b))"
    by (simp add: sel)
  have b: "\<not> ((\<exists>memo. p_memoData (sampleDBF Strict False None) = Some memo \<and> length memo < 8) \<and>
              (p_version (sampleDBF Strict False None) = Some 0x30
               \<or> p_version (sampleDBF Strict False None) = Some 0xf5
               \<or> p_version (sampleDBF Strict False None) = Some 0x8b))"
    by (simp add: sel)
  have c: "(\<exists>memo. p_memoData (vfpDBF Strict (Some [])) = Some memo \<and> length memo < 8) \<and>
           (p_version (vfpDBF Strict (Some [])) = Some 0x30
            \<or> p_version (vfpDBF Strict (Some [])) = Some 0xf5
            \<or> p_version (vfpDBF Strict (Some [])) = Some 0x8b)"
    by (simp add: vfp_sel)
  have z: "(0 :: rat) \<le> 0" "(- 5 :: rat) \<le> 0" by simp_all
  show ?thesis
    using readRecords_nonpositive[OF z(1), of sampleDecoder "sampleDBF Strict False (Some sampleMemo)"]
          readRecords_nonpositive[OF z(2), of sampleDecoder "sampleDBF Strict False None"]
          readRecords_nonpositive[OF z(1), of sampleDecoder "vfpDBF Strict (Some [])"]
          a b c
    by (simp add: prod_eq_iff)
qed


end
